theory Spec2Isabelle
  imports Main
begin

section \<open>Values of the language\<close>

text \<open>
  A \<^verbatim>\<open>number\<close> is modelled by the integers, NaN and the two infinities. Comparison is
  that of the language: every comparison with NaN is false. Fractional numbers are
  floating point and are not part of this model.
\<close>

datatype jsnum = Num int | NaN | Infinity | NegInfinity

fun js_ge :: "jsnum \<Rightarrow> jsnum \<Rightarrow> bool" where
  "js_ge NaN _ = False"
| "js_ge _ NaN = False"
| "js_ge (Num a) (Num b) = (b \<le> a)"
| "js_ge Infinity _ = True"
| "js_ge _ NegInfinity = True"
| "js_ge _ _ = False"

fun js_le :: "jsnum \<Rightarrow> jsnum \<Rightarrow> bool" where
  "js_le NaN _ = False"
| "js_le _ NaN = False"
| "js_le (Num a) (Num b) = (a \<le> b)"
| "js_le NegInfinity _ = True"
| "js_le _ Infinity = True"
| "js_le _ _ = False"

text \<open>The decimal digits of a natural number, most significant first.\<close>

definition digit :: "nat \<Rightarrow> char" where
  "digit d = ''0123456789'' ! d"

fun digits :: "nat \<Rightarrow> string" where
  "digits n = (if n < 10 then [digit n] else digits (n div 10) @ [digit (n mod 10)])"

declare digits.simps [simp del]

text \<open>
  \<^verbatim>\<open>Number.prototype.toString\<close>: the decimal digits with a minus sign for a negative
  integer, and the names of the three special values. This is what the language prints for
  an integer below \<open>10^21\<close> in magnitude; from there on it prints an exponent form
  (\<^verbatim>\<open>1e+21\<close>), which this function does not produce.
\<close>

fun number_toString :: "jsnum \<Rightarrow> string" where
  "number_toString (Num i) = (if i < 0 then CHR ''-'' # digits (nat (- i)) else digits (nat i))"
| "number_toString NaN = ''NaN''"
| "number_toString Infinity = ''Infinity''"
| "number_toString NegInfinity = ''-Infinity''"

text \<open>
  A string is a list of code units, here the 8-bit characters of \<^typ>\<open>string\<close>. The white
  space that \<^verbatim>\<open>String.prototype.trim\<close> strips is, in that range: TAB, LF, VT, FF, CR,
  SPACE and NBSP.
\<close>

definition is_whitespace :: "char \<Rightarrow> bool" where
  "is_whitespace c = (c \<in> set [CHR 0x09, CHR 0x0A, CHR 0x0B, CHR 0x0C, CHR 0x0D, CHR 0x20, CHR 0xA0])"

definition trim :: "string \<Rightarrow> string" where
  "trim s = rev (dropWhile is_whitespace (rev (dropWhile is_whitespace s)))"

text \<open>The type \<^verbatim>\<open>string | number\<close> of \<^verbatim>\<open>Validatable.value\<close>.\<close>

datatype jsval = Str string | Number jsnum

fun toString :: "jsval \<Rightarrow> string" where
  "toString (Str s) = s"
| "toString (Number n) = number_toString n"


section \<open>The validator\<close>

text \<open>
  \<^verbatim>\<open>interface Validatable\<close>. An optional field that is absent (\<^verbatim>\<open>undefined\<close>, so
  \<^verbatim>\<open>!= null\<close> is false) is \<open>None\<close>.
\<close>

record Validatable =
  value_v :: jsval
  required :: bool
  minLength :: "jsnum option"
  maxLength :: "jsnum option"
  min_v :: "jsnum option"
  max_v :: "jsnum option"

text \<open>
  \<^verbatim>\<open>function validate(validateInput)\<close>: the five \<^verbatim>\<open>if\<close> statements in the order of the
  source, each one updating \<^verbatim>\<open>isValid\<close>.
\<close>

definition validate :: "Validatable \<Rightarrow> bool" where
  "validate validateInput =
    (let isValid = True;
         isValid = (if required validateInput
                    then isValid \<and> length (trim (toString (value_v validateInput))) \<noteq> 0
                    else isValid);
         isValid = (case (minLength validateInput, value_v validateInput) of
                      (Some m, Str s) \<Rightarrow> isValid \<and> js_ge (Num (int (length s))) m
                    | _ \<Rightarrow> isValid);
         isValid = (case (maxLength validateInput, value_v validateInput) of
                      (Some m, Str s) \<Rightarrow> isValid \<and> js_le (Num (int (length s))) m
                    | _ \<Rightarrow> isValid);
         isValid = (case (min_v validateInput, value_v validateInput) of
                      (Some m, Number n) \<Rightarrow> isValid \<and> js_ge n m
                    | _ \<Rightarrow> isValid);
         isValid = (case (max_v validateInput, value_v validateInput) of
                      (Some m, Number n) \<Rightarrow> isValid \<and> js_le n m
                    | _ \<Rightarrow> isValid)
     in isValid)"

text \<open>
  The checks as the specification words them, one definition per check; \<open>validate_spec\<close> is
  their conjunction.
\<close>

definition check_required :: "Validatable \<Rightarrow> bool" where
  "check_required v = (if required v then trim (toString (value_v v)) \<noteq> [] else True)"

definition check_minLength :: "Validatable \<Rightarrow> bool" where
  "check_minLength v =
    (case minLength v of None \<Rightarrow> True
     | Some m \<Rightarrow> (case value_v v of Str s \<Rightarrow> js_ge (Num (int (length s))) m | Number _ \<Rightarrow> True))"

definition check_maxLength :: "Validatable \<Rightarrow> bool" where
  "check_maxLength v =
    (case maxLength v of None \<Rightarrow> True
     | Some m \<Rightarrow> (case value_v v of Str s \<Rightarrow> js_le (Num (int (length s))) m | Number _ \<Rightarrow> True))"

definition check_min :: "Validatable \<Rightarrow> bool" where
  "check_min v =
    (case min_v v of None \<Rightarrow> True
     | Some m \<Rightarrow> (case value_v v of Number n \<Rightarrow> js_ge n m | Str _ \<Rightarrow> True))"

definition check_max :: "Validatable \<Rightarrow> bool" where
  "check_max v =
    (case max_v v of None \<Rightarrow> True
     | Some m \<Rightarrow> (case value_v v of Number n \<Rightarrow> js_le n m | Str _ \<Rightarrow> True))"

definition validate_spec :: "Validatable \<Rightarrow> bool" where
  "validate_spec v =
    (check_required v \<and> check_minLength v \<and> check_maxLength v \<and> check_min v \<and> check_max v)"


section \<open>Projects and the memory they live in\<close>

datatype Status = Active | Finished

text \<open>\<^verbatim>\<open>class Project\<close>; the field \<^verbatim>\<open>id\<close> is \<open>id_p\<close> here.\<close>

record Project =
  id_p :: string
  title :: string
  description :: string
  people :: jsnum
  status :: Status

text \<open>
  Arrays and \<^verbatim>\<open>Project\<close> objects are shared by reference: the store hands its listeners
  arrays whose elements are the very objects it keeps. The memory is therefore explicit. An
  address is an index: \<open>objs\<close> holds the \<^verbatim>\<open>Project\<close> objects and \<open>arrs\<close> the arrays of
  references to them, and allocation appends. A reference the program holds is always
  allocated, so the reads below are in range.
\<close>

type_synonym ref = nat

record heap =
  objs :: "Project list"
  arrs :: "ref list list"

text \<open>\<^verbatim>\<open>new Project(...)\<close>: a fresh object and its address.\<close>

definition new_Project :: "Project \<Rightarrow> heap \<Rightarrow> ref \<times> heap" where
  "new_Project p h = (length (objs h), h\<lparr>objs := objs h @ [p]\<rparr>)"

text \<open>\<^verbatim>\<open>a.push(r)\<close>: the array at \<open>a\<close> is extended in place.\<close>

definition array_push :: "ref \<Rightarrow> ref \<Rightarrow> heap \<Rightarrow> heap" where
  "array_push a r h = h\<lparr>arrs := (arrs h)[a := arrs h ! a @ [r]]\<rparr>"

text \<open>\<^verbatim>\<open>a.slice()\<close>: a fresh array with the same elements (the same references).\<close>

definition array_slice :: "ref \<Rightarrow> heap \<Rightarrow> ref \<times> heap" where
  "array_slice a h = (length (arrs h), h\<lparr>arrs := arrs h @ [arrs h ! a]\<rparr>)"

text \<open>\<^verbatim>\<open>a.find(pred)\<close>: the first element that satisfies the predicate, if any.\<close>

definition array_find :: "(Project \<Rightarrow> bool) \<Rightarrow> ref \<Rightarrow> heap \<Rightarrow> ref option" where
  "array_find pred a h = find (\<lambda>r. pred (objs h ! r)) (arrs h ! a)"

text \<open>\<^verbatim>\<open>project.status = newStatus\<close>: the object at \<open>r\<close> is changed in place.\<close>

definition set_status :: "ref \<Rightarrow> Status \<Rightarrow> heap \<Rightarrow> heap" where
  "set_status r newStatus h = h\<lparr>objs := (objs h)[r := (objs h ! r)\<lparr>status := newStatus\<rparr>]\<rparr>"


section \<open>The store\<close>

text \<open>
  \<^verbatim>\<open>type Listener<T> = (items: T[]) => void\<close>. A listener is a function value, of a type
  \<open>'f\<close> that is left open; what calling it does is given by \<open>body\<close>, of type \<open>'f bodies\<close>,
  the code of the function values: called with the address of an array it acts on the whole
  state. It can therefore write to the memory, and it can call the public methods of the
  global store, so register listeners or add and move projects while it is being notified.
  Listeners return: one that throws or loops is outside this model.

  One invocation of a listener, as it is recorded: which listener, the address of the array
  it was handed, and the projects that array held at the moment of the call.
\<close>

record 'f call =
  callee :: 'f
  items :: ref
  received :: "Project list"

text \<open>
  \<^verbatim>\<open>class ProjectState extends State<Project>\<close>: \<open>listeners\<close> and \<open>projects\<close> are the two
  fields of the object, \<open>projects\<close> being the address of the backing array. \<open>heap\<close> is the
  memory and \<open>calls\<close> the invocations of listeners so far, oldest first.
\<close>

record 'f ProjectState =
  heap :: heap
  listeners :: "'f list"
  projects :: ref
  calls :: "'f call list"

type_synonym 'f bodies = "'f \<Rightarrow> ref \<Rightarrow> 'f ProjectState \<Rightarrow> 'f ProjectState"

text \<open>\<^verbatim>\<open>new ProjectState()\<close>, as \<^verbatim>\<open>getInstance\<close> builds it on first use: both arrays empty.\<close>

definition new_ProjectState :: "'f ProjectState" where
  "new_ProjectState =
    \<lparr>heap = \<lparr>objs = [], arrs = [[]]\<rparr>, listeners = [], projects = 0, calls = []\<rparr>"

text \<open>\<^verbatim>\<open>State.addListener\<close>.\<close>

definition addListener :: "'f \<Rightarrow> 'f ProjectState \<Rightarrow> 'f ProjectState" where
  "addListener listenerFunc s = s\<lparr>listeners := listeners s @ [listenerFunc]\<rparr>"

text \<open>
  The body of both notification loops, \<^verbatim>\<open>listener(this.projects.slice())\<close>: the copy is
  made, then the listener runs.
\<close>

definition invoke :: "'f bodies \<Rightarrow> 'f \<Rightarrow> 'f ProjectState \<Rightarrow> 'f ProjectState" where
  "invoke body listener s =
    (let (a, h) = array_slice (projects s) (heap s);
         c = \<lparr>callee = listener, items = a, received = map (\<lambda>r. objs h ! r) (arrs h ! a)\<rparr>
     in body listener a (s\<lparr>heap := h, calls := calls s @ [c]\<rparr>))"

text \<open>
  \<^verbatim>\<open>for (const listener of this.listeners) { ... }\<close>. The iterator of an array keeps an
  index and compares it with the length the array has at that moment, so a listener that is
  registered during the loop is called in it, and a loop whose listeners keep registering
  listeners does not end: the result is \<open>None\<close> then.
\<close>

partial_function (option) for_listeners ::
    "'f bodies \<Rightarrow> nat \<Rightarrow> 'f ProjectState \<Rightarrow> 'f ProjectState option" where
  "for_listeners body i s =
    (if i < length (listeners s)
     then for_listeners body (Suc i) (invoke body (listeners s ! i) s)
     else Some s)"

declare for_listeners.simps [code]

text \<open>\<^verbatim>\<open>ProjectState.updateListeners\<close>.\<close>

definition updateListeners :: "'f bodies \<Rightarrow> 'f ProjectState \<Rightarrow> 'f ProjectState option" where
  "updateListeners body s = for_listeners body 0 s"

text \<open>
  \<^verbatim>\<open>ProjectState.addProject\<close>. \<open>rnd\<close> is the string \<^verbatim>\<open>Math.random().toString()\<close> of this
  call: the random source is an input of the model.
\<close>

definition addProject ::
    "'f bodies \<Rightarrow> string \<Rightarrow> string \<Rightarrow> string \<Rightarrow> jsnum \<Rightarrow> 'f ProjectState \<Rightarrow>
     'f ProjectState option" where
  "addProject body rnd title' description' numOfPeople s =
    (let (newProjects, h) =
           new_Project \<lparr>id_p = rnd, title = title', description = description',
                        people = numOfPeople, status = Active\<rparr> (heap s);
         s1 = s\<lparr>heap := array_push (projects s) newProjects h\<rparr>
     in for_listeners body 0 s1)"

text \<open>\<^verbatim>\<open>ProjectState.moveProject\<close>.\<close>

definition moveProject ::
    "'f bodies \<Rightarrow> string \<Rightarrow> Status \<Rightarrow> 'f ProjectState \<Rightarrow> 'f ProjectState option" where
  "moveProject body projectId newStatus s =
    (case array_find (\<lambda>project. id_p project = projectId) (projects s) (heap s) of
       None \<Rightarrow> Some s
     | Some project \<Rightarrow>
         if status (objs (heap s) ! project) \<noteq> newStatus
         then updateListeners body (s\<lparr>heap := set_status project newStatus (heap s)\<rparr>)
         else Some s)"

text \<open>
  The function values of this development. \<open>ProjectList_listener\<close> is the listener that
  \<^verbatim>\<open>ProjectList.configure\<close> registers: \<^verbatim>\<open>projects.filter(...)\<close> builds a new array of the
  projects of the list's own status; the rest of the callback renders it. \<open>Registrar f\<close> is
  not part of the program: it is a listener that calls \<^verbatim>\<open>projectState.addListener(f)\<close>.
\<close>

datatype list_type = active | finished

datatype fn = ProjectList_listener list_type | Registrar fn

fun listener_body :: "fn bodies" where
  "listener_body (ProjectList_listener ty) a s =
    s\<lparr>heap := (heap s)\<lparr>arrs := arrs (heap s) @
       [filter (\<lambda>project. if ty = active then status (objs (heap s) ! project) = Active
                          else status (objs (heap s) ! project) = Finished)
          (arrs (heap s) ! a)]\<rparr>\<rparr>"
| "listener_body (Registrar f) a s = addListener f s"


subsection \<open>Reading the store\<close>

text \<open>The backing array, and the projects it holds, in order.\<close>

definition project_refs :: "'f ProjectState \<Rightarrow> ref list" where
  "project_refs s = arrs (heap s) ! projects s"

definition project_values :: "'f ProjectState \<Rightarrow> Project list" where
  "project_values s = map (\<lambda>r. objs (heap s) ! r) (project_refs s)"

text \<open>The invocations an operation added, when it took \<open>s\<close> to \<open>s'\<close>.\<close>

definition notified :: "'f ProjectState \<Rightarrow> 'f ProjectState \<Rightarrow> 'f call list" where
  "notified s s' = drop (length (calls s)) (calls s')"

text \<open>
  A state is well formed when the backing array is allocated and holds distinct,
  allocated objects.
\<close>

definition wf :: "'f ProjectState \<Rightarrow> bool" where
  "wf s =
    (projects s < length (arrs (heap s)) \<and> distinct (project_refs s) \<and>
     list_all (\<lambda>r. r < length (objs (heap s))) (project_refs s))"

text \<open>
  A listener stays out of the store when calling it registers no listener and makes no
  call of \<^verbatim>\<open>addProject\<close> or \<^verbatim>\<open>moveProject\<close> that notifies: the store's two fields and the
  record of invocations are as before.
\<close>

definition stays_out :: "'f bodies \<Rightarrow> 'f \<Rightarrow> bool" where
  "stays_out body l =
    (\<forall>a s. listeners (body l a s) = listeners s \<and> projects (body l a s) = projects s \<and>
           calls (body l a s) = calls s)"

text \<open>
  A listener is confined when it stays out of the store and all it writes in memory is the
  array it was handed: it may add, remove and replace elements there, and allocate, but
  every other array and every project object that exists stays as it is.
\<close>

definition confined :: "'f bodies \<Rightarrow> 'f \<Rightarrow> bool" where
  "confined body l =
    (stays_out body l \<and>
     (\<forall>a s. a < length (arrs (heap s)) \<longrightarrow>
        length (arrs (heap s)) \<le> length (arrs (heap (body l a s))) \<and>
        (\<forall>b<length (arrs (heap s)). b \<noteq> a \<longrightarrow> arrs (heap (body l a s)) ! b = arrs (heap s) ! b) \<and>
        take (length (objs (heap s))) (objs (heap (body l a s))) = objs (heap s)))"

text \<open>Writing arbitrary contents into an array, as its holder may do at any later time.\<close>

definition overwrite :: "ref \<Rightarrow> ref list \<Rightarrow> 'f ProjectState \<Rightarrow> 'f ProjectState" where
  "overwrite a xs s = s\<lparr>heap := (heap s)\<lparr>arrs := (arrs (heap s))[a := xs]\<rparr>\<rparr>"


subsection \<open>Notification, as the specification words it\<close>

text \<open>
  ``Invokes every registered listener with a snapshot copy of the full collection, in
  registration order'': \<open>hand_over\<close> is one call of a listener with a new array that holds
  the given projects, and \<open>notify_all\<close> does this for the listeners of a list, one after the
  other, with the same projects for each.
\<close>

definition hand_over :: "'f bodies \<Rightarrow> 'f \<Rightarrow> ref list \<Rightarrow> 'f ProjectState \<Rightarrow> 'f ProjectState" where
  "hand_over body l rs s =
    body l (length (arrs (heap s)))
      (s\<lparr>heap := (heap s)\<lparr>arrs := arrs (heap s) @ [rs]\<rparr>,
         calls := calls s @
           [\<lparr>callee = l, items = length (arrs (heap s)),
             received = map (\<lambda>r. objs (heap s) ! r) rs\<rparr>]\<rparr>)"

fun notify_all :: "'f bodies \<Rightarrow> 'f list \<Rightarrow> ref list \<Rightarrow> 'f ProjectState \<Rightarrow> 'f ProjectState" where
  "notify_all body [] rs s = s"
| "notify_all body (l # ls) rs s = notify_all body ls rs (hand_over body l rs s)"

text \<open>
  The state in which a new project has been stored and nobody has been told yet, and the
  state in which the status of the object at \<open>r\<close> has been written.
\<close>

definition stored :: "Project \<Rightarrow> 'f ProjectState \<Rightarrow> 'f ProjectState" where
  "stored p s =
    s\<lparr>heap := (heap s)\<lparr>objs := objs (heap s) @ [p],
                arrs := (arrs (heap s))[projects s := project_refs s @ [length (objs (heap s))]]\<rparr>\<rparr>"

definition restatused :: "ref \<Rightarrow> Status \<Rightarrow> 'f ProjectState \<Rightarrow> 'f ProjectState" where
  "restatused r ns s =
    s\<lparr>heap := (heap s)\<lparr>objs := (objs (heap s))[r := (objs (heap s) ! r)\<lparr>status := ns\<rparr>]\<rparr>\<rparr>"

text \<open>
  What \<^verbatim>\<open>moveProject\<close> does to the collection, read as a list of projects: the first
  project with the given id gets the new status, everything else stays.
\<close>

fun move_spec :: "string \<Rightarrow> Status \<Rightarrow> Project list \<Rightarrow> Project list" where
  "move_spec pid ns [] = []"
| "move_spec pid ns (p # ps) =
    (if id_p p = pid then p\<lparr>status := ns\<rparr> # ps else p # move_spec pid ns ps)"

text \<open>
  A history of the store: the calls of \<^verbatim>\<open>addProject\<close> and \<^verbatim>\<open>moveProject\<close> in order, each
  \<^verbatim>\<open>addProject\<close> with the random string it drew.
\<close>

datatype operation = AddProject string string string jsnum | MoveProject string Status

fun perform :: "'f bodies \<Rightarrow> operation \<Rightarrow> 'f ProjectState \<Rightarrow> 'f ProjectState option" where
  "perform body (AddProject rnd t d n) s = addProject body rnd t d n s"
| "perform body (MoveProject pid ns) s = moveProject body pid ns s"

fun run :: "'f bodies \<Rightarrow> operation list \<Rightarrow> 'f ProjectState \<Rightarrow> 'f ProjectState option" where
  "run body [] s = Some s"
| "run body (x # xs) s = (case perform body x s of None \<Rightarrow> None | Some s1 \<Rightarrow> run body xs s1)"

fun drawn :: "operation list \<Rightarrow> string list" where
  "drawn [] = []"
| "drawn (AddProject rnd t d n # xs) = rnd # drawn xs"
| "drawn (MoveProject pid ns # xs) = drawn xs"


section \<open>The form\<close>

text \<open>
  The unary plus on a string. It is the language's conversion on white space only (zero),
  on a decimal integer with an optional sign that a double holds exactly, on the infinities,
  and on every string that is no numeric literal (NaN). A literal with a fraction point, an
  exponent or a radix prefix (\<^verbatim>\<open>2.0\<close>, \<^verbatim>\<open>1e1\<close>, \<^verbatim>\<open>0x10\<close>) and an integer too long for a
  double are not read as the language reads them (NaN, and the exact integer): nothing below
  evaluates the conversion at such a string.
\<close>

definition digit_value :: "char \<Rightarrow> nat option" where
  "digit_value c = map_of (zip ''0123456789'' [0, 1, 2, 3, 4, 5, 6, 7, 8, 9]) c"

fun decimal :: "string \<Rightarrow> nat \<Rightarrow> nat option" where
  "decimal [] acc = Some acc"
| "decimal (c # cs) acc =
    (case digit_value c of None \<Rightarrow> None | Some d \<Rightarrow> decimal cs (10 * acc + d))"

definition unsigned_literal :: "string \<Rightarrow> jsnum" where
  "unsigned_literal t =
    (if t = ''Infinity'' then Infinity
     else if t = [] then NaN
     else case decimal t 0 of None \<Rightarrow> NaN | Some n \<Rightarrow> Num (int n))"

definition negate :: "jsnum \<Rightarrow> jsnum" where
  "negate n =
    (case n of Num i \<Rightarrow> Num (- i) | NaN \<Rightarrow> NaN | Infinity \<Rightarrow> NegInfinity
     | NegInfinity \<Rightarrow> Infinity)"

definition unary_plus :: "string \<Rightarrow> jsnum" where
  "unary_plus s =
    (case trim s of
       [] \<Rightarrow> Num 0
     | c # cs \<Rightarrow>
         if c = CHR ''-'' then negate (unsigned_literal cs)
         else if c = CHR ''+'' then unsigned_literal cs
         else unsigned_literal (c # cs))"

text \<open>
  The page: the \<^verbatim>\<open>value\<close> of the three input elements of \<^verbatim>\<open>ProjectInput\<close>, the alerts
  shown so far, and the global \<^verbatim>\<open>projectState\<close>.
\<close>

record page =
  titleInputElement :: string
  descriptionInputElement :: string
  peopleInputElement :: string
  alerts :: "string list"
  projectState :: "fn ProjectState"

text \<open>
  \<^verbatim>\<open>ProjectInput.gatherUserInputVaues\<close>, of type \<^verbatim>\<open>[string, string, number] | void\<close>:
  \<open>None\<close> is \<^verbatim>\<open>void\<close>. The three values are validated as the strings they are; the
  \<^verbatim>\<open>if\<close> alerts and has no \<^verbatim>\<open>return\<close>, so the tuple is returned on every path.
\<close>

definition gatherUserInputVaues :: "page \<Rightarrow> (string \<times> string \<times> jsnum) option \<times> page" where
  "gatherUserInputVaues pg =
    (let titleValue = titleInputElement pg;
         descriptionValue = descriptionInputElement pg;
         peopleValue = peopleInputElement pg;
         titleValidator =
           \<lparr>value_v = Str titleValue, required = True, minLength = None, maxLength = None,
            min_v = None, max_v = None\<rparr>;
         descriptionValidator =
           \<lparr>value_v = Str descriptionValue, required = True, minLength = Some (Num 5),
            maxLength = None, min_v = None, max_v = None\<rparr>;
         peopleValidator =
           \<lparr>value_v = Str peopleValue, required = True, minLength = None, maxLength = None,
            min_v = Some (Num 1), max_v = Some (Num 10)\<rparr>;
         pg1 = (if \<not> validate titleValidator \<or> \<not> validate descriptionValidator \<or>
                   \<not> validate peopleValidator
                then pg\<lparr>alerts := alerts pg @ [''Invalid Input, please try again!'']\<rparr>
                else pg)
     in (Some (titleValue, descriptionValue, unary_plus peopleValue), pg1))"

text \<open>\<^verbatim>\<open>ProjectInput.clearInputs\<close>.\<close>

definition clearInputs :: "page \<Rightarrow> page" where
  "clearInputs pg =
    pg\<lparr>titleInputElement := [], descriptionInputElement := [], peopleInputElement := []\<rparr>"

text \<open>
  \<^verbatim>\<open>ProjectInput.submitHandler\<close>; \<^verbatim>\<open>Array.isArray(userInput)\<close> holds of a tuple and not of
  \<^verbatim>\<open>void\<close>. \<open>rnd\<close> is the random string \<^verbatim>\<open>addProject\<close> draws. The handler returns when
  \<^verbatim>\<open>addProject\<close> does.
\<close>

definition submitHandler :: "string \<Rightarrow> page \<Rightarrow> page option" where
  "submitHandler rnd pg =
    (let (userInput, pg1) = gatherUserInputVaues pg
     in case userInput of
          Some (title', description', numOfPeople) \<Rightarrow>
            (case addProject listener_body rnd title' description' numOfPeople (projectState pg1) of
               None \<Rightarrow> None
             | Some s \<Rightarrow> Some (clearInputs (pg1\<lparr>projectState := s\<rparr>)))
        | None \<Rightarrow> Some pg1)"

text \<open>
  The program's start: the store is created, then \<^verbatim>\<open>new ProjectList("active")\<close> and
  \<^verbatim>\<open>new ProjectList("finished")\<close> register their listeners, in this order; the form is empty.
\<close>

definition startup :: "fn ProjectState" where
  "startup =
    addListener (ProjectList_listener finished)
      (addListener (ProjectList_listener active) new_ProjectState)"

definition start_page :: page where
  "start_page =
    \<lparr>titleInputElement = [], descriptionInputElement = [], peopleInputElement = [],
     alerts = [], projectState = startup\<rparr>"


section \<open>Example states\<close>

text \<open>
  Three projects and the stores that hold the first, the first two and all three of them,
  each added after the start in this order; a store whose second listener registers the
  finished list's listener when it is called; and a form whose number of people is eleven.
\<close>

definition board :: Project where
  "board = \<lparr>id_p = ''0.42'', title = ''Board'', description = ''Draw the board'',
     people = Num 3, status = Active\<rparr>"

definition cards :: Project where
  "cards = \<lparr>id_p = ''0.77'', title = ''Cards'', description = ''Render the cards'',
     people = Num 2, status = Active\<rparr>"

definition notes_p :: Project where
  "notes_p = \<lparr>id_p = ''0.13'', title = ''Notes'', description = ''Write the notes'',
     people = Num 1, status = Active\<rparr>"

definition one_project :: "fn ProjectState" where
  "one_project =
    the (run listener_body [AddProject ''0.42'' ''Board'' ''Draw the board'' (Num 3)] startup)"

definition two_projects :: "fn ProjectState" where
  "two_projects =
    the (run listener_body
      [AddProject ''0.42'' ''Board'' ''Draw the board'' (Num 3),
       AddProject ''0.77'' ''Cards'' ''Render the cards'' (Num 2)] startup)"

definition three_projects :: "fn ProjectState" where
  "three_projects =
    the (run listener_body
      [AddProject ''0.42'' ''Board'' ''Draw the board'' (Num 3),
       AddProject ''0.77'' ''Cards'' ''Render the cards'' (Num 2),
       AddProject ''0.13'' ''Notes'' ''Write the notes'' (Num 1)] startup)"

definition with_registrar :: "fn ProjectState" where
  "with_registrar =
    addListener (Registrar (ProjectList_listener finished))
      (addListener (ProjectList_listener active) new_ProjectState)"

definition form_11 :: page where
  "form_11 = start_page\<lparr>titleInputElement := ''abc'', descriptionInputElement := ''abcdef'',
     peopleInputElement := ''11''\<rparr>"


section \<open>Properties of the validator\<close>

text \<open>
  Trimming leaves a string non-empty as soon as one of its characters is not white space;
  the string form of a number always has such a character.
\<close>

lemma non_ws_dropWhile: "x \<in> set xs \<Longrightarrow> \<not> P x \<Longrightarrow> x \<in> set (dropWhile P xs)"
  by (induction xs) auto

lemma trim_nonempty: "x \<in> set s \<Longrightarrow> \<not> is_whitespace x \<Longrightarrow> trim s \<noteq> []"
  unfolding trim_def using non_ws_dropWhile [of x s is_whitespace]
    non_ws_dropWhile [of x "rev (dropWhile is_whitespace s)" is_whitespace]
  by (auto simp: dropWhile_eq_Nil_conv)

lemma digit_not_ws: "d < 10 \<Longrightarrow> \<not> is_whitespace (digit d)"
proof -
  assume "d < 10"
  then have "d \<in> {0,1,2,3,4,5,6,7,8,9}" by auto
  then show ?thesis by (auto simp: digit_def is_whitespace_def)
qed

lemma digits_last: "\<exists>d<10. digit d \<in> set (digits n)"
  by (subst digits.simps) (auto intro: exI [of _ "n mod 10"] exI[of _ n])

lemma number_toString_trim: "trim (number_toString n) \<noteq> []"
proof (cases n)
  case (Num i)
  obtain d where d: "d < 10" "digit d \<in> set (digits (nat \<bar>i\<bar>))" using digits_last by blast
  then have "digit d \<in> set (number_toString (Num i))" by (auto simp: abs_if)
  then show ?thesis using Num trim_nonempty digit_not_ws d(1) by blast
next
  case NaN
  then show ?thesis by (simp add: trim_def is_whitespace_def)
next
  case Infinity
  then show ?thesis by (simp add: trim_def is_whitespace_def)
next
  case NegInfinity
  then show ?thesis by (simp add: trim_def is_whitespace_def)
qed

text \<open>
  C8. \<^verbatim>\<open>validate\<close> is the conjunction of its five checks: the required check on the
  trimmed string form, the two length bounds for a string only, the two numeric bounds for a
  number only, an absent bound being skipped. It is false for the empty string when
  required, false for "hi" with minimal length 5, true for 7 within 1 and 10, and false for
  11 with maximum 10.
\<close>

theorem validate_is_the_conjunction_of_its_checks:
  "(\<forall>v. validate v = validate_spec v) \<and>
   validate \<lparr>value_v = Str [], required = True, minLength = None, maxLength = None,
             min_v = None, max_v = None\<rparr> = False \<and>
   validate \<lparr>value_v = Str ''hi'', required = True, minLength = Some (Num 5), maxLength = None,
             min_v = None, max_v = None\<rparr> = False \<and>
   validate \<lparr>value_v = Number (Num 7), required = True, minLength = None, maxLength = None,
             min_v = Some (Num 1), max_v = Some (Num 10)\<rparr> = True \<and>
   validate \<lparr>value_v = Number (Num 11), required = True, minLength = None, maxLength = None,
             min_v = None, max_v = Some (Num 10)\<rparr> = False"
proof -
  have "\<forall>v. validate v = validate_spec v"
    by (simp add: validate_def validate_spec_def check_required_def check_minLength_def check_maxLength_def
        check_min_def check_max_def split: option.splits jsval.splits)
  moreover have "validate \<lparr>value_v = Str [], required = True, minLength = None,
      maxLength = None, min_v = None, max_v = None\<rparr> = False"
    by (simp add: validate_def trim_def)
  moreover have "validate \<lparr>value_v = Str ''hi'', required = True, minLength = Some (Num 5),
      maxLength = None, min_v = None, max_v = None\<rparr> = False"
    by (simp add: validate_def trim_def is_whitespace_def)
  moreover have "validate \<lparr>value_v = Number (Num 7), required = True, minLength = None,
      maxLength = None, min_v = Some (Num 1), max_v = Some (Num 10)\<rparr> = True"
    by (simp add: validate_def trim_def is_whitespace_def digits.simps digit_def)
  moreover have "validate \<lparr>value_v = Number (Num 11), required = True, minLength = None,
      maxLength = None, min_v = None, max_v = Some (Num 10)\<rparr> = False"
    by (simp add: validate_def trim_def is_whitespace_def digits.simps digit_def)
  ultimately show ?thesis by (intro conjI)
qed

text \<open>
  C9. The string form of a number is never empty after trimming. So \<^verbatim>\<open>validate\<close> accepts
  a number, required or not and whatever the length bounds are, whenever each of
  \<^verbatim>\<open>min\<close> and \<^verbatim>\<open>max\<close> is absent or satisfied. And it accepts every value that is not
  required and has no bound that applies to it: no length bound for a string, no numeric
  bound for a number.
\<close>

theorem validate_passes_without_an_excluding_bound:
  "trim (toString (Number n)) \<noteq> [] \<and>
   ((case mn of None \<Rightarrow> True | Some m \<Rightarrow> js_ge n m) \<and>
    (case mx of None \<Rightarrow> True | Some m \<Rightarrow> js_le n m) \<longrightarrow>
    validate \<lparr>value_v = Number n, required = r, minLength = a, maxLength = b,
              min_v = mn, max_v = mx\<rparr>) \<and>
   (\<not> required v \<and>
    (case value_v v of
       Str _ \<Rightarrow> minLength v = None \<and> maxLength v = None
     | Number _ \<Rightarrow> min_v v = None \<and> max_v v = None) \<longrightarrow>
    validate v)"
proof (intro conjI impI)
  show "trim (toString (Number n)) \<noteq> []" by (simp add: number_toString_trim)
next
  assume "(case mn of None \<Rightarrow> True | Some m \<Rightarrow> js_ge n m) \<and>
    (case mx of None \<Rightarrow> True | Some m \<Rightarrow> js_le n m)"
  then show "validate \<lparr>value_v = Number n, required = r, minLength = a, maxLength = b,
              min_v = mn, max_v = mx\<rparr>"
    by (simp add: validate_def number_toString_trim split: option.splits)
next
  assume "\<not> required v \<and>
    (case value_v v of
       Str _ \<Rightarrow> minLength v = None \<and> maxLength v = None
     | Number _ \<Rightarrow> min_v v = None \<and> max_v v = None)"
  then show "validate v"
    by (auto simp: validate_def split: option.splits jsval.splits)
qed

text \<open>NaN, the number 7 between its bounds, and an empty string that is not required.\<close>

theorem validate_passes_examples:
  "trim (toString (Number NaN)) \<noteq> [] \<and>
   validate \<lparr>value_v = Number (Num 7), required = True, minLength = Some (Num 99),
             maxLength = None, min_v = Some (Num 1), max_v = Some (Num 10)\<rparr> \<and>
   validate \<lparr>value_v = Str [], required = False, minLength = None, maxLength = None,
             min_v = Some (Num 1), max_v = None\<rparr>"
  using validate_passes_without_an_excluding_bound [of NaN None None True None None
          "\<lparr>value_v = Str [], required = False, minLength = None, maxLength = None,
             min_v = Some (Num 1), max_v = None\<rparr>"]
        validate_passes_without_an_excluding_bound [of "Num 7" "Some (Num 1)" "Some (Num 10)"
          True "Some (Num 99)" None
          "\<lparr>value_v = Str [], required = False, minLength = None, maxLength = None,
             min_v = Some (Num 1), max_v = None\<rparr>"]
  by simp


section \<open>Properties of the store\<close>

subsection \<open>One call, and a round\<close>

text \<open>
  What a confined listener leaves alone, and what handing an array to it does to the fields
  of the store and to a well-formed state.
\<close>

lemma confined_stays_out: "confined body l \<Longrightarrow> stays_out body l"
  by (simp add: confined_def)

lemma stays_out_fields:
  "stays_out body l \<Longrightarrow> listeners (body l a s) = listeners s"
  "stays_out body l \<Longrightarrow> projects (body l a s) = projects s"
  "stays_out body l \<Longrightarrow> calls (body l a s) = calls s"
  by (simp_all add: stays_out_def)

lemma list_all_confined_stays_out: "list_all (confined body) ls \<Longrightarrow> list_all (stays_out body) ls"
  by (simp add: list_all_iff confined_def)

lemma confined_objs:
  assumes "confined body l" and "a < length (arrs (heap s))" and "r < length (objs (heap s))"
  shows "objs (heap (body l a s)) ! r = objs (heap s) ! r"
proof -
  from assms(1,2) have t: "take (length (objs (heap s))) (objs (heap (body l a s))) = objs (heap s)"
    by (simp add: confined_def)
  have "take (length (objs (heap s))) (objs (heap (body l a s))) ! r = objs (heap (body l a s)) ! r"
    using assms(3) by simp
  with t show ?thesis by simp
qed

lemma confined_objs_length:
  assumes "confined body l" and "a < length (arrs (heap s))"
  shows "length (objs (heap s)) \<le> length (objs (heap (body l a s)))"
proof -
  from assms have t: "take (length (objs (heap s))) (objs (heap (body l a s))) = objs (heap s)"
    by (simp add: confined_def)
  have "length (take (length (objs (heap s))) (objs (heap (body l a s))))
          \<le> length (objs (heap (body l a s)))" by simp
  with t show ?thesis by simp
qed

lemma confined_arrs:
  "confined body l \<Longrightarrow> a < length (arrs (heap s)) \<Longrightarrow> b < length (arrs (heap s)) \<Longrightarrow> b \<noteq> a \<Longrightarrow>
   arrs (heap (body l a s)) ! b = arrs (heap s) ! b"
  by (simp add: confined_def)

lemma confined_arrs_length:
  "confined body l \<Longrightarrow> a < length (arrs (heap s)) \<Longrightarrow>
   length (arrs (heap s)) \<le> length (arrs (heap (body l a s)))"
  by (simp add: confined_def)

lemma invoke_hand_over: "invoke body l s = hand_over body l (project_refs s) s"
  by (simp add: invoke_def hand_over_def array_slice_def project_refs_def)

lemma hand_over_fields:
  assumes "stays_out body l"
  shows "listeners (hand_over body l rs s) = listeners s"
    and "projects (hand_over body l rs s) = projects s"
    and "calls (hand_over body l rs s) =
           calls s @ [\<lparr>callee = l, items = length (arrs (heap s)),
                       received = map (\<lambda>r. objs (heap s) ! r) rs\<rparr>]"
  using assms by (simp_all add: hand_over_def stays_out_fields)

lemma hand_over_heap:
  assumes "wf s" "confined body l"
  shows "project_refs (hand_over body l rs s) = project_refs s"
    and "project_values (hand_over body l rs s) = project_values s"
    and "wf (hand_over body l rs s)"
    and "length (arrs (heap s)) < length (arrs (heap (hand_over body l rs s)))"
    and "length (objs (heap s)) \<le> length (objs (heap (hand_over body l rs s)))"
    and "\<And>r. r < length (objs (heap s)) \<Longrightarrow>
            objs (heap (hand_over body l rs s)) ! r = objs (heap s) ! r"
proof -
  let ?a = "length (arrs (heap s))"
  let ?t = "s\<lparr>heap := (heap s)\<lparr>arrs := arrs (heap s) @ [rs]\<rparr>,
         calls := calls s @
           [\<lparr>callee = l, items = length (arrs (heap s)),
             received = map (\<lambda>r. objs (heap s) ! r) rs\<rparr>]\<rparr>"
  let ?u = "hand_over body l rs s"
  have u: "?u = body l ?a ?t" by (simp add: hand_over_def)
  have so: "stays_out body l" using assms(2) by (rule confined_stays_out)
  have P: "projects s < ?a" using assms(1) by (simp add: wf_def)
  have a: "?a < length (arrs (heap ?t))" by simp
  have pu: "projects ?u = projects s" using so by (simp add: hand_over_fields)
  have len: "length (arrs (heap ?t)) \<le> length (arrs (heap ?u))"
    unfolding u using confined_arrs_length [OF assms(2) a] .
  then show 4: "length (arrs (heap s)) < length (arrs (heap ?u))" by simp
  have "arrs (heap ?u) ! projects s = arrs (heap ?t) ! projects s"
    unfolding u using confined_arrs [OF assms(2) a, of "projects s"] P by simp
  then have A: "arrs (heap ?u) ! projects s = arrs (heap s) ! projects s"
    using P by (simp add: nth_append)
  then show 1: "project_refs ?u = project_refs s" by (simp add: project_refs_def pu)
  show O: "\<And>r. r < length (objs (heap s)) \<Longrightarrow> objs (heap ?u) ! r = objs (heap s) ! r"
    unfolding u using confined_objs [OF assms(2) a] by simp
  have R: "\<forall>r\<in>set (project_refs s). r < length (objs (heap s))"
    using assms(1) by (simp add: wf_def list_all_iff)
  show "project_values ?u = project_values s"
    unfolding project_values_def 1 using R O by simp
  show L: "length (objs (heap s)) \<le> length (objs (heap ?u))"
    unfolding u using confined_objs_length [OF assms(2) a] by simp
  show "wf ?u"
    unfolding wf_def 1 using assms(1) 4 R L
    by (auto simp: wf_def pu list_all_iff)
qed

text \<open>
  A round over a list of listeners: the fields it keeps, the calls it records, and, by
  induction over the listeners with the state generalised, that the collection survives
  every call.
\<close>

lemma notified_append: "calls s' = calls s @ cs \<Longrightarrow> notified s s' = cs"
  by (simp add: notified_def)

lemma notified_self: "notified s s = []"
  by (simp add: notified_def)

lemma notify_all_fields:
  "list_all (stays_out body) ls \<Longrightarrow>
   listeners (notify_all body ls rs s) = listeners s \<and>
   projects (notify_all body ls rs s) = projects s"
  by (induction ls arbitrary: s) (simp_all add: hand_over_fields)

lemma notify_all_calls:
  "list_all (stays_out body) ls \<Longrightarrow>
   \<exists>cs. calls (notify_all body ls rs s) = calls s @ cs \<and> map callee cs = ls"
proof (induction ls arbitrary: s)
  case Nil
  then show ?case by simp
next
  case (Cons l ls)
  from Cons.prems have so: "stays_out body l" and rest: "list_all (stays_out body) ls" by simp_all
  obtain cs where cs: "calls (notify_all body ls rs (hand_over body l rs s)) =
      calls (hand_over body l rs s) @ cs" "map callee cs = ls"
    using Cons.IH [OF rest] by blast
  let ?c = "\<lparr>callee = l, items = length (arrs (heap s)),
              received = map (\<lambda>r. objs (heap s) ! r) rs\<rparr>"
  have A: "calls (notify_all body (l # ls) rs s) = calls s @ (?c # cs)"
    using cs(1) by (simp add: hand_over_fields [OF so])
  have B: "map callee (?c # cs) = l # ls" using cs(2) by simp
  show ?case by (rule exI [of _ "?c # cs"]) (rule conjI [OF A B])
qed

lemma notify_all_callee:
  "list_all (stays_out body) ls \<Longrightarrow> map callee (notified s (notify_all body ls rs s)) = ls"
  using notify_all_calls [of body ls rs s] notified_append by metis

lemma notify_all_notified:
  "list_all (stays_out body) ls \<Longrightarrow>
   calls (notify_all body ls rs s) = calls s @ notified s (notify_all body ls rs s)"
  using notify_all_calls [of body ls rs s] notified_append by metis

lemma notified_Cons:
  assumes "stays_out body l" "list_all (stays_out body) ls"
  shows "notified s (notify_all body (l # ls) rs s) =
     \<lparr>callee = l, items = length (arrs (heap s)), received = map (\<lambda>r. objs (heap s) ! r) rs\<rparr> #
     notified (hand_over body l rs s) (notify_all body ls rs (hand_over body l rs s))"
proof -
  have "calls (notify_all body (l # ls) rs s) =
      calls s @ (\<lparr>callee = l, items = length (arrs (heap s)),
                  received = map (\<lambda>r. objs (heap s) ! r) rs\<rparr> #
        notified (hand_over body l rs s) (notify_all body ls rs (hand_over body l rs s)))"
    using notify_all_notified [OF assms(2), of rs "hand_over body l rs s"]
    by (simp add: hand_over_fields [OF assms(1)])
  then show ?thesis by (rule notified_append)
qed

lemma notify_all_heap:
  assumes "wf s" "list_all (confined body) ls"
  shows "wf (notify_all body ls rs s) \<and>
         project_refs (notify_all body ls rs s) = project_refs s \<and>
         project_values (notify_all body ls rs s) = project_values s \<and>
         length (arrs (heap s)) \<le> length (arrs (heap (notify_all body ls rs s)))"
  using assms
proof (induction ls arbitrary: s)
  case Nil
  then show ?case by simp
next
  case (Cons l ls)
  from Cons.prems have c: "confined body l" and cs: "list_all (confined body) ls" by simp_all
  note h = hand_over_heap [OF Cons.prems(1) c, where rs = rs]
  note ih = Cons.IH [OF h(3) cs]
  show ?case using ih h(1,2,4) by simp
qed

lemma notify_all_received:
  assumes "wf s" "list_all (confined body) ls" "list_all (\<lambda>r. r < length (objs (heap s))) rs"
  shows "map received (notified s (notify_all body ls rs s)) =
           replicate (length ls) (map (\<lambda>r. objs (heap s) ! r) rs)"
  using assms
proof (induction ls arbitrary: s)
  case Nil
  then show ?case by (simp add: notified_def)
next
  case (Cons l ls)
  let ?s1 = "hand_over body l rs s"
  from Cons.prems have c: "confined body l" and cs: "list_all (confined body) ls" by simp_all
  note h = hand_over_heap [OF Cons.prems(1) c, where rs = rs]
  have rs1: "list_all (\<lambda>r. r < length (objs (heap ?s1))) rs"
    using Cons.prems(3) h(5) by (auto simp: list_all_iff)
  have same: "map (\<lambda>r. objs (heap ?s1) ! r) rs = map (\<lambda>r. objs (heap s) ! r) rs"
    using Cons.prems(3) h(6) by (simp add: list_all_iff)
  note ih = Cons.IH [OF h(3) cs rs1]
  show ?case
    unfolding notified_Cons [OF confined_stays_out [OF c] list_all_confined_stays_out [OF cs]]
    using ih same by simp
qed

lemma notify_all_items:
  assumes "wf s" "list_all (confined body) ls"
  shows "list_all (\<lambda>c. length (arrs (heap s)) \<le> items c \<and>
                        items c < length (arrs (heap (notify_all body ls rs s))))
           (notified s (notify_all body ls rs s))"
  using assms
proof (induction ls arbitrary: s)
  case Nil
  then show ?case by (simp add: notified_def)
next
  case (Cons l ls)
  let ?s1 = "hand_over body l rs s"
  from Cons.prems have c: "confined body l" and cs: "list_all (confined body) ls" by simp_all
  note h = hand_over_heap [OF Cons.prems(1) c, where rs = rs]
  note ih = Cons.IH [OF h(3) cs]
  have le: "length (arrs (heap ?s1)) \<le> length (arrs (heap (notify_all body ls rs ?s1)))"
    using notify_all_heap [OF h(3) cs] by simp
  have "list_all (\<lambda>c. length (arrs (heap s)) \<le> items c \<and>
                        items c < length (arrs (heap (notify_all body ls rs ?s1))))
           (notified ?s1 (notify_all body ls rs ?s1))"
    using ih h(4) by (auto simp: list_all_iff)
  then show ?case
    unfolding notified_Cons [OF confined_stays_out [OF c] list_all_confined_stays_out [OF cs]]
    using h(4) le by simp
qed

subsection \<open>The loop over the live list\<close>

text \<open>
  When the listeners stay out of the store, the list does not change under the loop, so the
  loop ends after one call for each listener that was registered when it began. By
  induction on the number of listeners still to be called. For confined listeners in a
  well-formed state every call is handed the same projects, so the loop is \<open>notify_all\<close>.
\<close>

lemma for_listeners_stays_out:
  assumes "list_all (stays_out body) (listeners s)"
  shows "for_listeners body i s =
           Some (foldl (\<lambda>s l. invoke body l s) s (drop i (listeners s)))"
  using assms
proof (induction "length (listeners s) - i" arbitrary: i s)
  case 0
  then have "\<not> i < length (listeners s)" by simp
  then show ?case by (subst for_listeners.simps) simp
next
  case (Suc k)
  then have i: "i < length (listeners s)" by simp
  let ?l = "listeners s ! i"
  let ?s1 = "invoke body ?l s"
  have so: "stays_out body ?l" using Suc.prems i by (simp add: list_all_iff)
  have l1: "listeners ?s1 = listeners s"
    unfolding invoke_hand_over by (rule hand_over_fields(1) [OF so])
  have k: "k = length (listeners ?s1) - Suc i" using Suc.hyps(2) l1 by simp
  have p: "list_all (stays_out body) (listeners ?s1)" using Suc.prems l1 by simp
  have "for_listeners body i s = for_listeners body (Suc i) ?s1"
    using i by (subst for_listeners.simps) simp
  also have "\<dots> = Some (foldl (\<lambda>s l. invoke body l s) ?s1 (drop (Suc i) (listeners ?s1)))"
    by (rule Suc.hyps(1) [OF k p])
  also have "\<dots> = Some (foldl (\<lambda>s l. invoke body l s) s (drop i (listeners s)))"
    using i l1 by (simp add: Cons_nth_drop_Suc [symmetric])
  finally show ?case .
qed

lemma foldl_invoke_fields:
  "list_all (stays_out body) ls \<Longrightarrow>
   listeners (foldl (\<lambda>s l. invoke body l s) s ls) = listeners s \<and>
   projects (foldl (\<lambda>s l. invoke body l s) s ls) = projects s"
proof (induction ls arbitrary: s)
  case Nil
  then show ?case by simp
next
  case (Cons l ls)
  from Cons.prems have so: "stays_out body l" and rest: "list_all (stays_out body) ls" by simp_all
  note f = hand_over_fields [OF so, of "project_refs s" s, folded invoke_hand_over]
  show ?case using Cons.IH [OF rest, of "invoke body l s"] f(1,2) by simp
qed

lemma foldl_invoke_calls:
  "list_all (stays_out body) ls \<Longrightarrow>
   \<exists>cs. calls (foldl (\<lambda>s l. invoke body l s) s ls) = calls s @ cs \<and> map callee cs = ls"
proof (induction ls arbitrary: s)
  case Nil
  then show ?case by simp
next
  case (Cons l ls)
  let ?s1 = "invoke body l s"
  from Cons.prems have so: "stays_out body l" and rest: "list_all (stays_out body) ls" by simp_all
  note f = hand_over_fields [OF so, of "project_refs s" s, folded invoke_hand_over]
  obtain cs where cs: "calls (foldl (\<lambda>s l. invoke body l s) ?s1 ls) = calls ?s1 @ cs"
    "map callee cs = ls"
    using Cons.IH [OF rest] by blast
  let ?c = "\<lparr>callee = l, items = length (arrs (heap s)),
              received = map (\<lambda>r. objs (heap s) ! r) (project_refs s)\<rparr>"
  have A: "calls (foldl (\<lambda>s l. invoke body l s) s (l # ls)) = calls s @ (?c # cs)"
    using cs(1) f(3) by simp
  have B: "map callee (?c # cs) = l # ls" using cs(2) by simp
  show ?case by (rule exI [of _ "?c # cs"]) (rule conjI [OF A B])
qed

lemma foldl_invoke_callee:
  "list_all (stays_out body) ls \<Longrightarrow>
   map callee (notified s (foldl (\<lambda>s l. invoke body l s) s ls)) = ls"
  using foldl_invoke_calls [of body ls s] notified_append by metis

lemma foldl_invoke_notify_all:
  assumes "wf s" "list_all (confined body) ls"
  shows "foldl (\<lambda>s l. invoke body l s) s ls = notify_all body ls (project_refs s) s"
  using assms
proof (induction ls arbitrary: s)
  case Nil
  then show ?case by simp
next
  case (Cons l ls)
  from Cons.prems have c: "confined body l" and cs: "list_all (confined body) ls" by simp_all
  note h = hand_over_heap [OF Cons.prems(1) c, where rs = "project_refs s"]
  show ?case using Cons.IH [OF h(3) cs] h(1) by (simp add: invoke_hand_over)
qed

lemma for_listeners_confined:
  assumes "wf s" "list_all (confined body) (listeners s)"
  shows "for_listeners body 0 s = Some (notify_all body (listeners s) (project_refs s) s)"
  using for_listeners_stays_out [OF list_all_confined_stays_out [OF assms(2)], of 0]
    foldl_invoke_notify_all [OF assms] by simp

subsection \<open>The two writes\<close>

text \<open>
  Appending a fresh object keeps the state well formed because a fresh address is in no
  array yet. Writing the status of one element changes one position of the collection
  because the backing array holds no object twice.
\<close>

lemma addProject_unfold:
  "addProject body rnd t d n s =
     for_listeners body 0
       (stored \<lparr>id_p = rnd, title = t, description = d, people = n, status = Active\<rparr> s)"
  by (simp add: addProject_def new_Project_def array_push_def stored_def project_refs_def)

lemma stored_state:
  fixes s :: "'f ProjectState" and p :: Project
  assumes "wf s"
  shows "wf (stored p s)"
    and "project_refs (stored p s) = project_refs s @ [length (objs (heap s))]"
    and "project_values (stored p s) = project_values s @ [p]"
    and "calls (stored p s) = calls s" and "listeners (stored p s) = listeners s"
    and "projects (stored p s) = projects s"
    and "length (arrs (heap (stored p s))) = length (arrs (heap s))"
proof -
  let ?s1 = "stored p s"
  have P: "projects s < length (arrs (heap s))" using assms(1) by (simp add: wf_def)
  have R: "\<forall>r\<in>set (project_refs s). r < length (objs (heap s))"
    using assms(1) by (simp add: wf_def list_all_iff)
  have D: "distinct (project_refs s)" using assms(1) by (simp add: wf_def)
  show refs: "project_refs ?s1 = project_refs s @ [length (objs (heap s))]"
    using P by (simp add: stored_def project_refs_def)
  have objs: "objs (heap ?s1) = objs (heap s) @ [p]" by (simp add: stored_def)
  show "wf ?s1" unfolding wf_def refs objs using P R D
    by (auto simp: stored_def list_all_iff)
  have "map (\<lambda>r. (objs (heap s) @ [p]) ! r) (project_refs s) = map (\<lambda>r. objs (heap s) ! r) (project_refs s)"
    using R by (simp add: nth_append)
  then show "project_values ?s1 = project_values s @ [p]"
    unfolding project_values_def refs objs by simp
  show "calls ?s1 = calls s" "listeners ?s1 = listeners s" "projects ?s1 = projects s"
    "length (arrs (heap ?s1)) = length (arrs (heap s))"
    by (simp_all add: stored_def)
qed

lemma restatused_state:
  fixes s :: "'f ProjectState" and ns :: Status and i :: nat
  assumes "wf s" "i < length (project_refs s)"
  defines "s1 \<equiv> restatused (project_refs s ! i) ns s"
  shows "wf s1"
    and "project_values s1 = (project_values s)[i := (project_values s ! i)\<lparr>status := ns\<rparr>]"
    and "calls s1 = calls s" and "listeners s1 = listeners s" and "projects s1 = projects s"
    and "length (arrs (heap s1)) = length (arrs (heap s))"
    and "project_refs s1 = project_refs s"
proof -
  let ?r = "project_refs s ! i"
  let ?o = "objs (heap s)"
  have R: "\<forall>r\<in>set (project_refs s). r < length ?o"
    using assms(1) by (simp add: wf_def list_all_iff)
  have D: "distinct (project_refs s)" using assms(1) by (simp add: wf_def)
  have r: "?r < length ?o" using R assms(2) by simp
  show refs: "project_refs s1 = project_refs s" by (simp add: s1_def project_refs_def restatused_def)
  have objs: "objs (heap s1) = ?o[?r := (?o ! ?r)\<lparr>status := ns\<rparr>]"
    by (simp add: s1_def restatused_def)
  show "wf s1" unfolding wf_def refs objs using assms(1)
    by (simp add: wf_def s1_def restatused_def)
  show "project_values s1 = (project_values s)[i := (project_values s ! i)\<lparr>status := ns\<rparr>]"
  proof (rule nth_equalityI)
    show "length (project_values s1) = length ((project_values s)[i := (project_values s ! i)\<lparr>status := ns\<rparr>])"
      by (simp add: project_values_def refs)
  next
    fix j assume "j < length (project_values s1)"
    then have j: "j < length (project_refs s)" by (simp add: project_values_def refs)
    show "project_values s1 ! j = (project_values s)[i := (project_values s ! i)\<lparr>status := ns\<rparr>] ! j"
    proof (cases "j = i")
      case True
      then show ?thesis using j r by (simp add: project_values_def refs objs)
    next
      case False
      then have "project_refs s ! j \<noteq> ?r" using D j assms(2) by (simp add: nth_eq_iff_index_eq)
      then show ?thesis using j False by (simp add: project_values_def refs objs)
    qed
  qed
  show "calls s1 = calls s" "listeners s1 = listeners s" "projects s1 = projects s"
    "length (arrs (heap s1)) = length (arrs (heap s))"
    by (simp_all add: s1_def restatused_def)
qed

lemma find_over_map: "find P (map f xs) = map_option f (find (\<lambda>x. P (f x)) xs)"
  by (induction xs) simp_all

lemma array_find_values:
  "find P (project_values s) = map_option (\<lambda>r. objs (heap s) ! r) (array_find P (projects s) (heap s))"
  by (simp add: array_find_def project_values_def project_refs_def find_over_map)

subsection \<open>The operations as functions on the collection\<close>

text \<open>A round of notifications from a well-formed state, and \<^verbatim>\<open>addProject\<close> as a whole.\<close>

lemma round_facts:
  fixes s1 :: "'f ProjectState"
  assumes "wf s1" and "list_all (confined body) (listeners s1)"
  defines "s' \<equiv> notify_all body (listeners s1) (project_refs s1) s1"
  shows "for_listeners body 0 s1 = Some s'"
    and "wf s'" and "project_values s' = project_values s1"
    and "listeners s' = listeners s1" and "projects s' = projects s1"
    and "map callee (notified s1 s') = listeners s1"
    and "map received (notified s1 s') = replicate (length (listeners s1)) (project_values s1)"
    and "list_all (\<lambda>c. length (arrs (heap s1)) \<le> items c \<and> items c \<noteq> projects s1)
           (notified s1 s')"
proof -
  note so = list_all_confined_stays_out [OF assms(2)]
  show "for_listeners body 0 s1 = Some s'"
    unfolding s'_def by (rule for_listeners_confined [OF assms(1,2)])
  note heap = notify_all_heap [OF assms(1,2), of "project_refs s1"]
  show "wf s'" "project_values s' = project_values s1" unfolding s'_def using heap by simp_all
  show "listeners s' = listeners s1" "projects s' = projects s1"
    unfolding s'_def using notify_all_fields [OF so] by simp_all
  show "map callee (notified s1 s') = listeners s1"
    unfolding s'_def by (rule notify_all_callee [OF so])
  have R: "list_all (\<lambda>r. r < length (objs (heap s1))) (project_refs s1)"
    using assms(1) by (simp add: wf_def)
  show "map received (notified s1 s') = replicate (length (listeners s1)) (project_values s1)"
    unfolding s'_def using notify_all_received [OF assms(1,2) R] by (simp add: project_values_def)
  have P: "projects s1 < length (arrs (heap s1))" using assms(1) by (simp add: wf_def)
  show "list_all (\<lambda>c. length (arrs (heap s1)) \<le> items c \<and> items c \<noteq> projects s1) (notified s1 s')"
    unfolding s'_def using notify_all_items [OF assms(1,2), of "project_refs s1"] P
    by (auto simp: list_all_iff)
qed

lemma notified_same_calls: "calls s1 = calls s \<Longrightarrow> notified s s' = notified s1 s'"
  by (simp add: notified_def)

lemma addProject_facts:
  fixes s :: "'f ProjectState" and rnd t d :: string and n :: jsnum
  assumes "wf s" "list_all (confined body) (listeners s)"
  defines "p \<equiv> \<lparr>id_p = rnd, title = t, description = d, people = n, status = Active\<rparr>"
  defines "s' \<equiv> notify_all body (listeners s) (project_refs s @ [length (objs (heap s))]) (stored p s)"
  shows "addProject body rnd t d n s = Some s'"
    and "wf s'"
    and "project_values s' = project_values s @ [p]"
    and "listeners s' = listeners s" and "projects s' = projects s"
    and "map callee (notified s s') = listeners s"
    and "map received (notified s s') = replicate (length (listeners s)) (project_values s @ [p])"
    and "list_all (\<lambda>c. length (arrs (heap s)) \<le> items c \<and> items c \<noteq> projects s) (notified s s')"
proof -
  note st = stored_state [OF assms(1), of p]
  have c: "list_all (confined body) (listeners (stored p s))" using st(5) assms(2) by simp
  have s': "s' = notify_all body (listeners (stored p s)) (project_refs (stored p s)) (stored p s)"
    by (simp add: s'_def st)
  note r = round_facts [OF st(1) c, folded s']
  note n = notified_same_calls [OF st(4), of s']
  show "addProject body rnd t d n s = Some s'"
    unfolding addProject_unfold p_def [symmetric] by (rule r(1))
  show "wf s'" by (rule r(2))
  show "project_values s' = project_values s @ [p]" using r(3) st(3) by simp
  show "listeners s' = listeners s" "projects s' = projects s" using r(4,5) st(5,6) by simp_all
  show "map callee (notified s s') = listeners s" unfolding n using r(6) st(5) by simp
  show "map received (notified s s') = replicate (length (listeners s)) (project_values s @ [p])"
    unfolding n using r(7) st(3,5) by simp
  show "list_all (\<lambda>c. length (arrs (heap s)) \<le> items c \<and> items c \<noteq> projects s) (notified s s')"
    unfolding n using r(8) st(6,7) by simp
qed

lemma move_spec_first:
  "i < length ps \<Longrightarrow> id_p (ps ! i) = pid \<Longrightarrow> \<forall>j<i. id_p (ps ! j) \<noteq> pid \<Longrightarrow>
   move_spec pid ns ps = ps[i := (ps ! i)\<lparr>status := ns\<rparr>]"
proof (induction ps arbitrary: i)
  case Nil
  then show ?case by simp
next
  case (Cons p ps)
  show ?case
  proof (cases i)
    case 0
    then show ?thesis using Cons.prems by simp
  next
    case (Suc k)
    have "id_p p \<noteq> pid" using Cons.prems(3) Suc by auto
    moreover have "\<forall>j<k. id_p (ps ! j) \<noteq> pid"
    proof (intro allI impI)
      fix j assume "j < k"
      then have "Suc j < i" using Suc by simp
      then have "id_p ((p # ps) ! Suc j) \<noteq> pid" using Cons.prems(3) by blast
      then show "id_p (ps ! j) \<noteq> pid" by simp
    qed
    then have "move_spec pid ns ps = ps[k := (ps ! k)\<lparr>status := ns\<rparr>]"
      using Cons.IH [of k] Cons.prems(1,2) Suc by simp
    ultimately show ?thesis using Suc by simp
  qed
qed

lemma move_spec_none: "find (\<lambda>p. id_p p = pid) ps = None \<Longrightarrow> move_spec pid ns ps = ps"
  by (induction ps) (auto split: if_splits)

lemma move_spec_same:
  "find (\<lambda>p. id_p p = pid) ps = Some p \<Longrightarrow> status p = ns \<Longrightarrow> move_spec pid ns ps = ps"
  by (induction ps) (auto split: if_splits)

lemma move_spec_ids: "map id_p (move_spec pid ns ps) = map id_p ps"
  by (induction ps) auto

lemma moveProject_noop_None:
  "find (\<lambda>p. id_p p = pid) (project_values s) = None \<Longrightarrow> moveProject body pid ns s = Some s"
  by (simp add: array_find_values moveProject_def split: option.splits)

lemma moveProject_noop_same:
  "find (\<lambda>p. id_p p = pid) (project_values s) = Some p \<Longrightarrow> status p = ns \<Longrightarrow>
   moveProject body pid ns s = Some s"
  by (auto simp: array_find_values moveProject_def split: option.splits)

lemma moveProject_change:
  fixes s :: "'f ProjectState"
  assumes "wf s" and "list_all (confined body) (listeners s)"
    and "find (\<lambda>p. id_p p = pid) (project_values s) = Some p" and "status p \<noteq> ns"
  shows "\<exists>i s'. i < length (project_values s) \<and> project_values s ! i = p \<and>
           (\<forall>j<i. id_p (project_values s ! j) \<noteq> pid) \<and>
           s' = notify_all body (listeners s) (project_refs s)
                  (restatused (project_refs s ! i) ns s) \<and>
           moveProject body pid ns s = Some s' \<and> wf s' \<and>
           project_values s' = (project_values s)[i := p\<lparr>status := ns\<rparr>] \<and>
           listeners s' = listeners s \<and> projects s' = projects s \<and>
           map callee (notified s s') = listeners s \<and>
           map received (notified s s') = replicate (length (listeners s)) (project_values s') \<and>
           list_all (\<lambda>c. length (arrs (heap s)) \<le> items c \<and> items c \<noteq> projects s)
             (notified s s')"
proof -
  let ?f = "\<lambda>r. objs (heap s) ! r"
  from assms(3) obtain r where r: "array_find (\<lambda>p. id_p p = pid) (projects s) (heap s) = Some r"
    and p: "?f r = p" by (auto simp: array_find_values)
  from r have "find (\<lambda>r. id_p (?f r) = pid) (project_refs s) = Some r"
    by (simp add: array_find_def project_refs_def)
  then obtain i where i: "i < length (project_refs s)" "id_p (?f (project_refs s ! i)) = pid"
    "r = project_refs s ! i" "\<forall>j<i. id_p (?f (project_refs s ! j)) \<noteq> pid"
    unfolding find_Some_iff by blast
  let ?s1 = "restatused (project_refs s ! i) ns s"
  let ?s' = "notify_all body (listeners s) (project_refs s) ?s1"
  note st = restatused_state [OF assms(1) i(1), of ns]
  have c: "list_all (confined body) (listeners ?s1)" using st(4) assms(2) by simp
  have s': "?s' = notify_all body (listeners ?s1) (project_refs ?s1) ?s1" by (simp add: st)
  note rf = round_facts [OF st(1) c, folded s']
  note n = notified_same_calls [OF st(3), of ?s']
  have m: "moveProject body pid ns s = Some ?s'"
    using r p assms(4) i(3) rf(1)
    by (simp add: moveProject_def updateListeners_def restatused_def set_status_def)
  have pi: "project_values s ! i = p" using i(1,3) p by (simp add: project_values_def)
  have len: "i < length (project_values s)" using i(1) by (simp add: project_values_def)
  have first: "\<forall>j<i. id_p (project_values s ! j) \<noteq> pid"
    using i(1,4) by (simp add: project_values_def)
  have v: "project_values ?s' = (project_values s)[i := p\<lparr>status := ns\<rparr>]"
    using rf(3) st(2) pi by simp
  have l: "listeners ?s' = listeners s" "projects ?s' = projects s" using rf(4,5) st(4,5) by simp_all
  have ce: "map callee (notified s ?s') = listeners s" unfolding n using rf(6) st(4) by simp
  have re: "map received (notified s ?s') = replicate (length (listeners s)) (project_values ?s')"
    unfolding n using rf(7) rf(3) st(4) by simp
  have it: "list_all (\<lambda>c. length (arrs (heap s)) \<le> items c \<and> items c \<noteq> projects s) (notified s ?s')"
    unfolding n using rf(8) st(5,6) by simp
  show ?thesis
    apply (rule exI [of _ i])
    apply (rule exI [of _ ?s'])
    using len pi first m rf(2) v l ce re it by simp
qed

lemma moveProject_facts:
  fixes s :: "'f ProjectState"
  assumes "wf s" "list_all (confined body) (listeners s)"
  shows "\<exists>s'. moveProject body pid ns s = Some s' \<and> wf s' \<and>
           project_values s' = move_spec pid ns (project_values s) \<and>
           listeners s' = listeners s \<and> projects s' = projects s \<and>
           map received (notified s s') =
             (case find (\<lambda>p. id_p p = pid) (project_values s) of
                None \<Rightarrow> []
              | Some p \<Rightarrow> if status p = ns then []
                          else replicate (length (listeners s)) (move_spec pid ns (project_values s))) \<and>
           list_all (\<lambda>c. length (arrs (heap s)) \<le> items c \<and> items c \<noteq> projects s)
             (notified s s')"
proof (cases "find (\<lambda>p. id_p p = pid) (project_values s)")
  case None
  show ?thesis
    apply (rule exI [of _ s])
    using assms(1) None moveProject_noop_None [OF None, of body ns]
    by (simp add: move_spec_none notified_self)
next
  case (Some p)
  show ?thesis
  proof (cases "status p = ns")
    case True
    show ?thesis
      apply (rule exI [of _ s])
      using assms(1) Some True moveProject_noop_same [OF Some True, of body]
      by (simp add: move_spec_same notified_self)
  next
    case False
    from moveProject_change [OF assms Some False] obtain i s' where
      i: "i < length (project_values s)" "project_values s ! i = p"
        "\<forall>j<i. id_p (project_values s ! j) \<noteq> pid"
      and s': "moveProject body pid ns s = Some s'" "wf s'"
        "project_values s' = (project_values s)[i := p\<lparr>status := ns\<rparr>]"
        "listeners s' = listeners s" "projects s' = projects s"
        "map received (notified s s') = replicate (length (listeners s)) (project_values s')"
        "list_all (\<lambda>c. length (arrs (heap s)) \<le> items c \<and> items c \<noteq> projects s) (notified s s')"
      by blast
    have "id_p p = pid" using Some by (auto simp: find_Some_iff)
    then have "move_spec pid ns (project_values s) = (project_values s)[i := p\<lparr>status := ns\<rparr>]"
      using move_spec_first [OF i(1) _ i(3), of ns] i(2) by simp
    then have v: "project_values s' = move_spec pid ns (project_values s)" using s'(3) by simp
    show ?thesis
      apply (rule exI [of _ s'])
      using s' v Some False by simp
  qed
qed

lemma overwrite_other:
  assumes "a \<noteq> projects s"
  shows "project_values (overwrite a xs s) = project_values s"
    and "wf (overwrite a xs s) = wf s"
    and "listeners (overwrite a xs s) = listeners s"
    and "projects (overwrite a xs s) = projects s"
  using assms by (simp_all add: overwrite_def project_values_def project_refs_def wf_def)

text \<open>
  With listeners that are only known to stay out of the store, the operations still return,
  keep the list of listeners and call exactly its members.
\<close>

lemma round_stays_out:
  assumes "list_all (stays_out body) (listeners s1)"
  shows "\<exists>s'. for_listeners body 0 s1 = Some s' \<and> listeners s' = listeners s1 \<and>
           map callee (notified s1 s') = listeners s1"
  using for_listeners_stays_out [OF assms, of 0] foldl_invoke_fields [OF assms, of s1]
    foldl_invoke_callee [OF assms, of s1] by simp

lemma addProject_stays_out:
  assumes "list_all (stays_out body) (listeners s)"
  shows "\<exists>s'. addProject body rnd t d n s = Some s' \<and> listeners s' = listeners s \<and>
           map callee (notified s s') = listeners s"
proof -
  let ?s1 = "stored \<lparr>id_p = rnd, title = t, description = d, people = n, status = Active\<rparr> s"
  have f: "listeners ?s1 = listeners s" "calls ?s1 = calls s" by (simp_all add: stored_def)
  have "list_all (stays_out body) (listeners ?s1)" using assms f by simp
  from round_stays_out [OF this] show ?thesis
    unfolding addProject_unfold f(1) notified_same_calls [OF f(2)] .
qed

lemma moveProject_stays_out:
  assumes "list_all (stays_out body) (listeners s)"
  shows "\<exists>s'. moveProject body pid ns s = Some s' \<and> listeners s' = listeners s \<and>
           (map callee (notified s s') = listeners s \<or> notified s s' = [])"
proof (cases "array_find (\<lambda>p. id_p p = pid) (projects s) (heap s)")
  case None
  show ?thesis by (rule exI [of _ s]) (simp add: None moveProject_def notified_self)
next
  case (Some r)
  show ?thesis
  proof (cases "status (objs (heap s) ! r) \<noteq> ns")
    case False
    show ?thesis
      apply (rule exI [of _ s])
      using Some False by (simp add: moveProject_def notified_self)
  next
    case True
    let ?s1 = "s\<lparr>heap := set_status r ns (heap s)\<rparr>"
    have f: "listeners ?s1 = listeners s" "calls ?s1 = calls s" by simp_all
    have m: "moveProject body pid ns s = for_listeners body 0 ?s1"
      using Some True by (simp add: moveProject_def updateListeners_def)
    have "list_all (stays_out body) (listeners ?s1)" using assms by simp
    from round_stays_out [OF this] obtain s' where
      "for_listeners body 0 ?s1 = Some s'" "listeners s' = listeners ?s1"
      "map callee (notified ?s1 s') = listeners ?s1" by blast
    then have "moveProject body pid ns s = Some s' \<and> listeners s' = listeners s \<and>
           (map callee (notified s s') = listeners s \<or> notified s s' = [])"
      unfolding m notified_same_calls [OF f(2)] by simp
    then show ?thesis by (rule exI [of _ s'])
  qed
qed

subsection \<open>The start and the example states\<close>

text \<open>
  The listeners of the two lists are confined: \<^verbatim>\<open>filter\<close> allocates and writes nothing
  else. A new store is well formed and registering a listener keeps it so. Every history
  keeps the state well formed and appends the strings it drew.
\<close>

lemma confined_ProjectList: "confined listener_body (ProjectList_listener ty)"
  by (simp add: confined_def stays_out_def nth_append)

lemma new_ProjectState_wf: "wf new_ProjectState"
  by (simp add: new_ProjectState_def wf_def project_refs_def)

lemma addListener_wf: "wf (addListener l s) = wf s"
  by (simp add: addListener_def wf_def project_refs_def)

lemma startup_facts:
  "wf startup" "listeners startup = [ProjectList_listener active, ProjectList_listener finished]"
  "project_values startup = []" "list_all (confined listener_body) (listeners startup)"
  by (simp_all add: startup_def addListener_def new_ProjectState_def wf_def project_refs_def
      project_values_def confined_ProjectList)

lemma run_ids:
  fixes s :: "'f ProjectState"
  assumes "wf s" and "list_all (confined body) (listeners s)"
  shows "\<exists>s'. run body ops s = Some s' \<and> wf s' \<and> listeners s' = listeners s \<and>
           map id_p (project_values s') = map id_p (project_values s) @ drawn ops"
  using assms
proof (induction ops arbitrary: s)
  case Nil
  then show ?case by simp
next
  case (Cons x xs)
  have "\<exists>s1. perform body x s = Some s1 \<and> wf s1 \<and> listeners s1 = listeners s \<and>
          map id_p (project_values s1) = map id_p (project_values s) @ drawn [x]"
  proof (cases x)
    case (AddProject rnd t d n)
    note a = addProject_facts [OF Cons.prems, of rnd t d n]
    show ?thesis unfolding AddProject using a(1,2,3,4) by simp
  next
    case (MoveProject pid ns)
    from moveProject_facts [OF Cons.prems, of pid ns]
    show ?thesis unfolding MoveProject by (auto simp: move_spec_ids)
  qed
  then obtain s1 where s1: "perform body x s = Some s1" "wf s1" "listeners s1 = listeners s"
    "map id_p (project_values s1) = map id_p (project_values s) @ drawn [x]" by blast
  have c: "list_all (confined body) (listeners s1)" using s1(3) Cons.prems(2) by simp
  from Cons.IH [OF s1(2) c] obtain s' where s': "run body xs s1 = Some s'" "wf s'"
    "listeners s' = listeners s1"
    "map id_p (project_values s') = map id_p (project_values s1) @ drawn xs" by blast
  have d: "drawn (x # xs) = drawn [x] @ drawn xs" by (cases x) simp_all
  show ?case
    apply (rule exI [of _ s'])
    using s1 s' d by simp
qed

lemma run_adds:
  fixes s :: "'f ProjectState"
  assumes "wf s" and "list_all (confined body) (listeners s)"
  shows "\<exists>s'. run body [AddProject r1 t1 d1 n1] s = Some s' \<and> wf s' \<and> listeners s' = listeners s \<and>
           project_values s' = project_values s @
             [\<lparr>id_p = r1, title = t1, description = d1, people = n1, status = Active\<rparr>]"
  using addProject_facts [OF assms, of r1 t1 d1 n1] by simp

lemma run_append:
  "run body (xs @ ys) s = (case run body xs s of None \<Rightarrow> None | Some s1 \<Rightarrow> run body ys s1)"
  by (induction xs arbitrary: s) (auto split: option.splits)

lemma example_stores:
  "wf one_project" "listeners one_project = listeners startup"
  "project_values one_project = [board]"
  "wf two_projects" "listeners two_projects = listeners startup"
  "project_values two_projects = [board, cards]"
  "wf three_projects" "listeners three_projects = listeners startup"
  "project_values three_projects = [board, cards, notes_p]"
proof -
  let ?a1 = "AddProject ''0.42'' ''Board'' ''Draw the board'' (Num 3)"
  let ?a2 = "AddProject ''0.77'' ''Cards'' ''Render the cards'' (Num 2)"
  let ?a3 = "AddProject ''0.13'' ''Notes'' ''Write the notes'' (Num 1)"
  have "\<exists>s'. run listener_body [?a1] startup = Some s' \<and> wf s' \<and>
      listeners s' = listeners startup \<and> project_values s' = [board]"
    using run_adds [OF startup_facts(1) startup_facts(4),
        of "''0.42''" "''Board''" "''Draw the board''" "Num 3"]
    by (simp only: startup_facts(3) board_def append_Nil)
  then obtain s1 where s1: "run listener_body [?a1] startup = Some s1" "wf s1"
    "listeners s1 = listeners startup" "project_values s1 = [board]"
    by blast
  have c1: "list_all (confined listener_body) (listeners s1)" using s1(3) startup_facts(4) by simp
  have "\<exists>s'. run listener_body [?a2] s1 = Some s' \<and> wf s' \<and>
      listeners s' = listeners startup \<and> project_values s' = [board, cards]"
    using run_adds [OF s1(2) c1, of "''0.77''" "''Cards''" "''Render the cards''" "Num 2"]
    by (simp only: s1(3,4) cards_def append_Cons append_Nil)
  then obtain s2 where s2: "run listener_body [?a2] s1 = Some s2" "wf s2"
    "listeners s2 = listeners startup" "project_values s2 = [board, cards]"
    by blast
  have c2: "list_all (confined listener_body) (listeners s2)" using s2(3) startup_facts(4) by simp
  have "\<exists>s'. run listener_body [?a3] s2 = Some s' \<and> wf s' \<and>
      listeners s' = listeners startup \<and> project_values s' = [board, cards, notes_p]"
    using run_adds [OF s2(2) c2, of "''0.13''" "''Notes''" "''Write the notes''" "Num 1"]
    by (simp only: s2(3,4) notes_p_def append_Cons append_Nil)
  then obtain s3 where s3: "run listener_body [?a3] s2 = Some s3" "wf s3"
    "listeners s3 = listeners startup" "project_values s3 = [board, cards, notes_p]"
    by blast
  have r2: "run listener_body [?a1, ?a2] startup = Some s2"
    using run_append [of listener_body "[?a1]" "[?a2]" startup] s1(1) s2(1) by simp
  have r3: "run listener_body [?a1, ?a2, ?a3] startup = Some s3"
    using run_append [of listener_body "[?a1, ?a2]" "[?a3]" startup] r2 s3(1) by simp
  have e: "one_project = s1" "two_projects = s2" "three_projects = s3"
    using s1(1) r2 r3 by (simp_all add: one_project_def two_projects_def three_projects_def)
  show "wf one_project" "listeners one_project = listeners startup"
    "project_values one_project = [board]"
    "wf two_projects" "listeners two_projects = listeners startup"
    "project_values two_projects = [board, cards]"
    "wf three_projects" "listeners three_projects = listeners startup"
    "project_values three_projects = [board, cards, notes_p]"
    unfolding e using s1 s2 s3 by simp_all
qed

lemma example_confined:
  "list_all (confined listener_body) (listeners one_project)"
  "list_all (confined listener_body) (listeners two_projects)"
  "list_all (confined listener_body) (listeners three_projects)"
  using startup_facts(4) by (simp_all add: example_stores)

lemma stays_out_ProjectList: "stays_out listener_body (ProjectList_listener ty)"
  by (simp add: stays_out_def)

lemma two_projects_heap:
  "heap two_projects =
     \<lparr>objs = [board, cards], arrs = [[0, 1], [0], [0], [0], [], [0, 1], [0, 1], [0, 1], []]\<rparr>"
  "projects two_projects = 0"
  by (simp_all add: two_projects_def startup_def addListener_def new_ProjectState_def
      addProject_def new_Project_def array_push_def for_listeners.simps invoke_def
      array_slice_def board_def cards_def Let_def)

lemma three_projects_heap:
  "objs (heap three_projects) = [board, cards, notes_p]"
  "length (arrs (heap three_projects)) = 13"
  "project_refs three_projects = [0, 1, 2]"
  "projects three_projects = 0"
  by (simp_all add: three_projects_def startup_def addListener_def new_ProjectState_def
      addProject_def new_Project_def array_push_def for_listeners.simps invoke_def
      array_slice_def board_def cards_def notes_p_def Let_def project_refs_def)

subsection \<open>Adding, moving and listening\<close>

text \<open>
  C1. In a well-formed store whose listeners are confined, \<^verbatim>\<open>addProject\<close> with any title,
  description and number of people returns, and the state it returns is the one in which
  the new project has been stored and then every listener registered before the call has
  been called, in the order of registration, each with a new array that holds the projects
  of the old collection followed by the new one. So the number of projects grows by one,
  the collection being the old one followed by a project with exactly these values, the
  random string as id and status Active; and the record of invocations shows one call for
  each listener, in order, each with an array that is not the backing array and holds the
  full new collection.
\<close>

theorem addProject_appends_and_notifies:
  assumes "wf s" and "list_all (confined body) (listeners s)"
  shows "\<exists>s'. addProject body rnd t d n s = Some s' \<and>
           s' = notify_all body (listeners s) (project_refs s @ [length (objs (heap s))])
                  (stored \<lparr>id_p = rnd, title = t, description = d, people = n,
                            status = Active\<rparr> s) \<and>
           project_values s' =
             project_values s @
               [\<lparr>id_p = rnd, title = t, description = d, people = n, status = Active\<rparr>] \<and>
           length (project_values s') = length (project_values s) + 1 \<and>
           map callee (notified s s') = listeners s \<and>
           map received (notified s s') = replicate (length (listeners s)) (project_values s') \<and>
           list_all (\<lambda>c. items c \<noteq> projects s') (notified s s')"
proof -
  note a = addProject_facts [OF assms, of rnd t d n]
  let ?s' = "notify_all body (listeners s) (project_refs s @ [length (objs (heap s))])
                  (stored \<lparr>id_p = rnd, title = t, description = d, people = n,
                            status = Active\<rparr> s)"
  have "list_all (\<lambda>c. items c \<noteq> projects ?s') (notified s ?s')"
    using a(8) a(5) by (auto simp: list_all_iff)
  then show ?thesis using a(1,3,6,7) by simp
qed

text \<open>
  A third project added to a store of two: it comes last, both lists are called with all
  three, and the four arrays allocated are the two copies and what the two lists filtered.
\<close>

theorem addProject_third_project:
  "wf two_projects \<and> list_all (confined listener_body) (listeners two_projects) \<and>
   project_values two_projects = [board, cards] \<and>
   map_option project_values
     (addProject listener_body ''0.13'' ''Notes'' ''Write the notes'' (Num 1) two_projects) =
     Some [board, cards, notes_p] \<and>
   map_option (\<lambda>s'. map callee (notified two_projects s'))
     (addProject listener_body ''0.13'' ''Notes'' ''Write the notes'' (Num 1) two_projects) =
     Some [ProjectList_listener active, ProjectList_listener finished] \<and>
   map_option (\<lambda>s'. map received (notified two_projects s'))
     (addProject listener_body ''0.13'' ''Notes'' ''Write the notes'' (Num 1) two_projects) =
     Some [[board, cards, notes_p], [board, cards, notes_p]] \<and>
   map_option (\<lambda>s'. drop (length (arrs (heap two_projects))) (arrs (heap s')))
     (addProject listener_body ''0.13'' ''Notes'' ''Write the notes'' (Num 1) two_projects) =
     Some [[0, 1, 2], [0, 1, 2], [0, 1, 2], []]"
proof -
  from addProject_appends_and_notifies [OF example_stores(4) example_confined(2),
      of "''0.13''" "''Notes''" "''Write the notes''" "Num 1"]
  obtain s' where s':
    "addProject listener_body ''0.13'' ''Notes'' ''Write the notes'' (Num 1) two_projects = Some s'"
    "s' = notify_all listener_body (listeners two_projects)
            (project_refs two_projects @ [length (objs (heap two_projects))])
            (stored \<lparr>id_p = ''0.13'', title = ''Notes'', description = ''Write the notes'',
                      people = Num 1, status = Active\<rparr> two_projects)"
    "project_values s' = project_values two_projects @ [notes_p]"
    "map callee (notified two_projects s') = listeners two_projects"
    "map received (notified two_projects s') =
       replicate (length (listeners two_projects)) (project_values s')"
    unfolding notes_p_def by blast
  have h: "drop (length (arrs (heap two_projects))) (arrs (heap s')) =
      [[0, 1, 2], [0, 1, 2], [0, 1, 2], []]"
    unfolding s'(2)
    by (simp add: example_stores startup_facts two_projects_heap stored_def hand_over_def
        project_refs_def board_def cards_def)
  show ?thesis
    using s'(1,3,4,5) h
    by (simp add: example_stores startup_facts confined_ProjectList)
qed


text \<open>
  C2. In a well-formed store whose listeners are confined, let \<open>p\<close> be the project that
  \<^verbatim>\<open>find\<close> returns for the id, and let its status differ from the new one. Then
  \<^verbatim>\<open>moveProject\<close> returns, and the state it returns is the one in which the status of that
  object has been written and then every listener has been called, in the order of
  registration, each with a new array that holds the projects of the collection. The
  collection changes at the position of \<open>p\<close> only, and there only the status: length,
  order, every other field of \<open>p\<close> and every other project are as before. There is exactly
  one round of notifications: one call for each listener, in order, each with an array that
  is not the backing array and holds this collection.
\<close>

theorem moveProject_changes_one_status:
  assumes "wf s" and "list_all (confined body) (listeners s)"
    and "find (\<lambda>p. id_p p = pid) (project_values s) = Some p" and "status p \<noteq> ns"
  shows "\<exists>i s'. i < length (project_values s) \<and> project_values s ! i = p \<and>
           (\<forall>j<i. id_p (project_values s ! j) \<noteq> pid) \<and>
           moveProject body pid ns s = Some s' \<and>
           s' = notify_all body (listeners s) (project_refs s)
                  (restatused (project_refs s ! i) ns s) \<and>
           project_values s' = (project_values s)[i := p\<lparr>status := ns\<rparr>] \<and>
           map callee (notified s s') = listeners s \<and>
           map received (notified s s') = replicate (length (listeners s)) (project_values s') \<and>
           list_all (\<lambda>c. items c \<noteq> projects s') (notified s s')"
proof -
  from moveProject_change [OF assms] obtain i s' where
    i: "i < length (project_values s)" "project_values s ! i = p"
      "\<forall>j<i. id_p (project_values s ! j) \<noteq> pid"
    and s': "s' = notify_all body (listeners s) (project_refs s)
                  (restatused (project_refs s ! i) ns s)"
      "moveProject body pid ns s = Some s'"
      "project_values s' = (project_values s)[i := p\<lparr>status := ns\<rparr>]"
      "projects s' = projects s"
      "map callee (notified s s') = listeners s"
      "map received (notified s s') = replicate (length (listeners s)) (project_values s')"
      "list_all (\<lambda>c. length (arrs (heap s)) \<le> items c \<and> items c \<noteq> projects s) (notified s s')"
    by blast
  have it: "list_all (\<lambda>c. items c \<noteq> projects s') (notified s s')"
    using s'(7) s'(4) by (auto simp: list_all_iff)
  show ?thesis
    apply (rule exI [of _ i])
    apply (rule exI [of _ s'])
    using i s'(1,2,3,5,6) it by simp
qed

text \<open>
  Moving the second of three projects to the finished list: its neighbours and the order
  stay, and the arrays the two lists filtered hold the first and third, and the second.
\<close>

theorem moveProject_middle_project:
  "wf three_projects \<and> list_all (confined listener_body) (listeners three_projects) \<and>
   find (\<lambda>p. id_p p = ''0.77'') (project_values three_projects) = Some cards \<and>
   status cards \<noteq> Finished \<and>
   map_option project_values (moveProject listener_body ''0.77'' Finished three_projects) =
     Some [board, cards\<lparr>status := Finished\<rparr>, notes_p] \<and>
   map_option (\<lambda>s'. map callee (notified three_projects s'))
     (moveProject listener_body ''0.77'' Finished three_projects) =
     Some [ProjectList_listener active, ProjectList_listener finished] \<and>
   map_option (\<lambda>s'. map received (notified three_projects s'))
     (moveProject listener_body ''0.77'' Finished three_projects) =
     Some [[board, cards\<lparr>status := Finished\<rparr>, notes_p],
           [board, cards\<lparr>status := Finished\<rparr>, notes_p]] \<and>
   map_option (\<lambda>s'. drop (length (arrs (heap three_projects))) (arrs (heap s')))
     (moveProject listener_body ''0.77'' Finished three_projects) =
     Some [[0, 1, 2], [0, 2], [0, 1, 2], [1]]"
proof -
  have f: "find (\<lambda>p. id_p p = ''0.77'') (project_values three_projects) = Some cards"
    by (simp add: example_stores board_def cards_def)
  have st: "status cards \<noteq> Finished" by (simp add: cards_def)
  from moveProject_changes_one_status [OF example_stores(7) example_confined(3) f st]
  obtain i s' where i: "i < length (project_values three_projects)"
      "project_values three_projects ! i = cards"
    and s': "moveProject listener_body ''0.77'' Finished three_projects = Some s'"
      "s' = notify_all listener_body (listeners three_projects) (project_refs three_projects)
              (restatused (project_refs three_projects ! i) Finished three_projects)"
      "project_values s' = (project_values three_projects)[i := cards\<lparr>status := Finished\<rparr>]"
      "map callee (notified three_projects s') = listeners three_projects"
      "map received (notified three_projects s') =
         replicate (length (listeners three_projects)) (project_values s')"
    by blast
  have "i = 1"
  proof -
    have "i < 3" using i(1) by (simp add: example_stores)
    then have "i = 0 \<or> i = 1 \<or> i = 2" by auto
    then show ?thesis using i(2) by (auto simp: example_stores board_def cards_def notes_p_def)
  qed
  have h: "drop (length (arrs (heap three_projects))) (arrs (heap s')) =
      [[0, 1, 2], [0, 2], [0, 1, 2], [1]]"
    unfolding s'(2) \<open>i = 1\<close>
    by (simp add: example_stores startup_facts three_projects_heap restatused_def hand_over_def
        board_def cards_def notes_p_def nth_append)
  show ?thesis
    using f st s'(1,3,4,5) h \<open>i = 1\<close>
    by (simp add: example_stores startup_facts confined_ProjectList)
qed

text \<open>
  C3. When no project of the store has the id, or the project that has it already has the
  requested status, \<^verbatim>\<open>moveProject\<close> returns the state it was given, whatever the listeners
  are: the collection is the same in every field of every project and no listener is
  called. The result is an ordinary state; the operation has no error path.
\<close>

theorem moveProject_silent_noop:
  assumes "case find (\<lambda>p. id_p p = pid) (project_values s) of
             None \<Rightarrow> True | Some p \<Rightarrow> status p = ns"
  shows "moveProject body pid ns s = Some s \<and>
         (\<exists>s'. moveProject body pid ns s = Some s' \<and>
            project_values s' = project_values s \<and> notified s s' = [])"
proof -
  have "moveProject body pid ns s = Some s"
    using assms moveProject_noop_None [of pid s body ns] moveProject_noop_same [of pid s _ ns body]
    by (auto split: option.splits)
  then show ?thesis by (simp add: notified_self)
qed

text \<open>An id the store does not have, and a move to the status the project has.\<close>

theorem moveProject_noop_examples:
  "(case find (\<lambda>p. id_p p = ''0.99'') (project_values two_projects) of
      None \<Rightarrow> True | Some p \<Rightarrow> status p = Finished) \<and>
   moveProject listener_body ''0.99'' Finished two_projects = Some two_projects \<and>
   (case find (\<lambda>p. id_p p = ''0.77'') (project_values two_projects) of
      None \<Rightarrow> True | Some p \<Rightarrow> status p = Active) \<and>
   moveProject listener_body ''0.77'' Active two_projects = Some two_projects"
proof -
  have a: "case find (\<lambda>p. id_p p = ''0.99'') (project_values two_projects) of
      None \<Rightarrow> True | Some p \<Rightarrow> status p = Finished"
    by (simp add: example_stores board_def cards_def)
  have b: "case find (\<lambda>p. id_p p = ''0.77'') (project_values two_projects) of
      None \<Rightarrow> True | Some p \<Rightarrow> status p = Active"
    by (simp add: example_stores board_def cards_def)
  show ?thesis
    using a b moveProject_silent_noop [OF a, of listener_body]
      moveProject_silent_noop [OF b, of listener_body]
    by simp
qed

lemma received_member:
  "map received cs = replicate k v \<Longrightarrow> c \<in> set cs \<Longrightarrow> received c = v"
proof -
  assume m: "map received cs = replicate k v" and c: "c \<in> set cs"
  from c have "received c \<in> set (map received cs)" by simp
  then show ?thesis unfolding m by simp
qed

lemma isolation_after:
  fixes s' :: "'f ProjectState"
  assumes "wf s'" and "list_all (confined body) (listeners s')" and "a \<noteq> projects s'"
  shows "project_values (overwrite a xs s') = project_values s'"
    and "\<exists>u v. addProject body r t d n (overwrite a xs s') = Some u \<and>
           addProject body r t d n s' = Some v \<and>
           map received (notified (overwrite a xs s') u) = map received (notified s' v)"
    and "\<exists>u v. moveProject body pid ns (overwrite a xs s') = Some u \<and>
           moveProject body pid ns s' = Some v \<and>
           map received (notified (overwrite a xs s') u) = map received (notified s' v)"
proof -
  note ow = overwrite_other [OF assms(3), of xs]
  have w: "wf (overwrite a xs s')" using ow(2) assms(1) by simp
  have c: "list_all (confined body) (listeners (overwrite a xs s'))" using ow(3) assms(2) by simp
  show "project_values (overwrite a xs s') = project_values s'" by (rule ow(1))
  note a1 = addProject_facts [OF w c, of r t d n]
  note a2 = addProject_facts [OF assms(1,2), of r t d n]
  show "\<exists>u v. addProject body r t d n (overwrite a xs s') = Some u \<and>
           addProject body r t d n s' = Some v \<and>
           map received (notified (overwrite a xs s') u) = map received (notified s' v)"
    using a1(1,7) a2(1,7) ow(1,3) by simp
  from moveProject_facts [OF w c, of pid ns] obtain u where
    u: "moveProject body pid ns (overwrite a xs s') = Some u"
      "map received (notified (overwrite a xs s') u) =
             (case find (\<lambda>p. id_p p = pid) (project_values (overwrite a xs s')) of
                None \<Rightarrow> []
              | Some p \<Rightarrow> if status p = ns then []
                          else replicate (length (listeners (overwrite a xs s')))
                                 (move_spec pid ns (project_values (overwrite a xs s'))))"
    by blast
  from moveProject_facts [OF assms(1,2), of pid ns] obtain v where
    v: "moveProject body pid ns s' = Some v"
      "map received (notified s' v) =
             (case find (\<lambda>p. id_p p = pid) (project_values s') of
                None \<Rightarrow> []
              | Some p \<Rightarrow> if status p = ns then []
                          else replicate (length (listeners s'))
                                 (move_spec pid ns (project_values s')))"
    by blast
  have "map received (notified (overwrite a xs s') u) = map received (notified s' v)"
    unfolding u(2) v(2) ow(1) ow(3) ..
  then show "\<exists>u v. moveProject body pid ns (overwrite a xs s') = Some u \<and>
           moveProject body pid ns s' = Some v \<and>
           map received (notified (overwrite a xs s') u) = map received (notified s' v)"
    using u(1) v(1) by blast
qed

subsection \<open>Snapshots\<close>

text \<open>
  C4. Let an operation of a well-formed store with confined listeners call a listener. The
  array the listener is handed is not the backing array: its address did not exist before
  the operation. It holds the full collection, whatever the listeners called earlier did to
  their arrays. And when its holder later writes any contents \<open>xs\<close> into it (adding,
  removing or replacing elements), the store's collection is unchanged, and a following
  \<^verbatim>\<open>addProject\<close> or \<^verbatim>\<open>moveProject\<close> returns and delivers to the listeners exactly what it
  would have delivered without that write.
\<close>

theorem snapshot_isolation:
  assumes "wf s" and "list_all (confined body) (listeners s)"
    and "addProject body rnd t d n s = Some s' \<or> moveProject body pid ns s = Some s'"
    and "c \<in> set (notified s s')"
  shows "items c \<noteq> projects s' \<and> length (arrs (heap s)) \<le> items c \<and>
         received c = project_values s' \<and>
         project_values (overwrite (items c) xs s') = project_values s' \<and>
         (\<exists>u v. addProject body rnd' t' d' n' (overwrite (items c) xs s') = Some u \<and>
            addProject body rnd' t' d' n' s' = Some v \<and>
            map received (notified (overwrite (items c) xs s') u) =
              map received (notified s' v)) \<and>
         (\<exists>u v. moveProject body pid' ns' (overwrite (items c) xs s') = Some u \<and>
            moveProject body pid' ns' s' = Some v \<and>
            map received (notified (overwrite (items c) xs s') u) =
              map received (notified s' v))"
proof -
  have k: "wf s' \<and> listeners s' = listeners s \<and> projects s' = projects s \<and>
        list_all (\<lambda>c. length (arrs (heap s)) \<le> items c \<and> items c \<noteq> projects s) (notified s s') \<and>
        (notified s s' = [] \<or>
         map received (notified s s') = replicate (length (listeners s)) (project_values s'))"
  proof (rule disjE [OF assms(3)])
    assume e: "addProject body rnd t d n s = Some s'"
    note a = addProject_facts [OF assms(1,2), of rnd t d n]
    from a(1) e have "s' = notify_all body (listeners s)
        (project_refs s @ [length (objs (heap s))])
        (stored \<lparr>id_p = rnd, title = t, description = d, people = n, status = Active\<rparr> s)"
      by simp
    then show ?thesis using a(2-8) by simp
  next
    assume e: "moveProject body pid ns s = Some s'"
    from moveProject_facts [OF assms(1,2), of pid ns] e
    have m: "wf s'" "project_values s' = move_spec pid ns (project_values s)"
      "listeners s' = listeners s" "projects s' = projects s"
      "map received (notified s s') =
             (case find (\<lambda>p. id_p p = pid) (project_values s) of
                None \<Rightarrow> []
              | Some p \<Rightarrow> if status p = ns then []
                          else replicate (length (listeners s)) (move_spec pid ns (project_values s)))"
      "list_all (\<lambda>c. length (arrs (heap s)) \<le> items c \<and> items c \<noteq> projects s) (notified s s')"
      by auto
    have "notified s s' = [] \<or>
         map received (notified s s') = replicate (length (listeners s)) (project_values s')"
      using m(2,5) by (auto split: option.splits)
    then show ?thesis using m(1,3,4,6) by simp
  qed
  from k assms(4) have i: "length (arrs (heap s)) \<le> items c" "items c \<noteq> projects s'"
    by (auto simp: list_all_iff)
  from k assms(4) have r: "received c = project_values s'"
    using received_member [of "notified s s'" _ _ c] by auto
  have conf: "list_all (confined body) (listeners s')" using k assms(2) by simp
  have w: "wf s'" using k by simp
  note after = isolation_after [OF w conf i(2)]
  show ?thesis using i r after by simp
qed

lemma one_project_run:
  "addProject listener_body ''0.42'' ''Board'' ''Draw the board'' (Num 3) startup = Some one_project"
proof -
  from addProject_facts(1) [OF startup_facts(1) startup_facts(4)]
  obtain s' where "addProject listener_body ''0.42'' ''Board'' ''Draw the board'' (Num 3) startup = Some s'"
    by blast
  then show ?thesis by (simp add: one_project_def)
qed

lemma notified_one_project:
  "notified startup one_project =
     [\<lparr>callee = ProjectList_listener active, items = 1, received = [board]\<rparr>,
      \<lparr>callee = ProjectList_listener finished, items = 3, received = [board]\<rparr>]"
  by (simp add: one_project_def startup_def addProject_def addListener_def new_ProjectState_def
      new_Project_def array_push_def invoke_def array_slice_def notified_def board_def
      for_listeners.simps Let_def)

text \<open>
  The active list empties the array it was handed when the first project was added; the
  following move and the following addition deliver what they would have delivered.
\<close>

theorem snapshot_isolation_at_startup:
  "wf startup \<and> list_all (confined listener_body) (listeners startup) \<and>
   addProject listener_body ''0.42'' ''Board'' ''Draw the board'' (Num 3) startup = Some one_project \<and>
   \<lparr>callee = ProjectList_listener active, items = 1, received = [board]\<rparr>
     \<in> set (notified startup one_project) \<and>
   1 \<noteq> projects one_project \<and>
   project_values (overwrite 1 [] one_project) = [board] \<and>
   map_option (\<lambda>u. map received (notified (overwrite 1 [] one_project) u))
     (moveProject listener_body ''0.42'' Finished (overwrite 1 [] one_project)) =
     Some [[board\<lparr>status := Finished\<rparr>], [board\<lparr>status := Finished\<rparr>]] \<and>
   map_option (\<lambda>u. map received (notified (overwrite 1 [] one_project) u))
     (addProject listener_body ''0.77'' ''Cards'' ''Render the cards'' (Num 2)
        (overwrite 1 [] one_project)) =
     map_option (\<lambda>v. map received (notified one_project v))
       (addProject listener_body ''0.77'' ''Cards'' ''Render the cards'' (Num 2) one_project)"
proof -
  let ?c = "\<lparr>callee = ProjectList_listener active, items = 1, received = [board]\<rparr>"
  have op: "addProject listener_body ''0.42'' ''Board'' ''Draw the board'' (Num 3) startup =
              Some one_project \<or>
            moveProject listener_body ''0.42'' Finished startup = Some one_project"
    by (simp add: one_project_run)
  have c: "?c \<in> set (notified startup one_project)" by (simp add: notified_one_project)
  from moveProject_facts [OF example_stores(1) example_confined(1), of "''0.42''" Finished]
  obtain v where v: "moveProject listener_body ''0.42'' Finished one_project = Some v"
    "map received (notified one_project v) =
       [[board\<lparr>status := Finished\<rparr>], [board\<lparr>status := Finished\<rparr>]]"
    by (auto simp: example_stores startup_facts board_def)
  from snapshot_isolation [OF startup_facts(1) startup_facts(4) op c,
      of "[]" "''0.77''" "''Cards''" "''Render the cards''" "Num 2" "''0.42''" Finished]
  show ?thesis using c v
    by (auto simp: startup_facts example_stores confined_ProjectList one_project_run)
qed

subsection \<open>Ids\<close>

text \<open>
  C5, as amended. The store does not make ids distinct; an id is the random string drawn
  when the project is added. Any sequence of \<^verbatim>\<open>addProject\<close> and \<^verbatim>\<open>moveProject\<close> calls
  returns, and the ids in the store are then the ids that were there followed by the
  strings drawn, in order; so they are pairwise distinct exactly when these strings are.
\<close>

theorem ids_are_the_strings_drawn:
  assumes "wf s" and "list_all (confined body) (listeners s)"
  shows "\<exists>s'. run body ops s = Some s' \<and>
           map id_p (project_values s') = map id_p (project_values s) @ drawn ops \<and>
           distinct (map id_p (project_values s')) =
             distinct (map id_p (project_values s) @ drawn ops)"
proof -
  from run_ids [OF assms, of ops] obtain s' where
    "run body ops s = Some s'"
    "map id_p (project_values s') = map id_p (project_values s) @ drawn ops" by blast
  then show ?thesis by simp
qed

text \<open>Two additions that draw different strings, with a move between them.\<close>

theorem ids_distinct_when_draws_differ:
  "wf startup \<and> list_all (confined listener_body) (listeners startup) \<and>
   map_option (\<lambda>s'. map id_p (project_values s'))
     (run listener_body
        [AddProject ''0.42'' ''Board'' ''Draw the board'' (Num 3),
         MoveProject ''0.42'' Finished,
         AddProject ''0.77'' ''Cards'' ''Render the cards'' (Num 2)] startup) =
     Some [''0.42'', ''0.77''] \<and>
   map_option (\<lambda>s'. distinct (map id_p (project_values s')))
     (run listener_body
        [AddProject ''0.42'' ''Board'' ''Draw the board'' (Num 3),
         MoveProject ''0.42'' Finished,
         AddProject ''0.77'' ''Cards'' ''Render the cards'' (Num 2)] startup) =
     Some True"
proof -
  from ids_are_the_strings_drawn [OF startup_facts(1) startup_facts(4),
      of "[AddProject ''0.42'' ''Board'' ''Draw the board'' (Num 3),
           MoveProject ''0.42'' Finished,
           AddProject ''0.77'' ''Cards'' ''Render the cards'' (Num 2)]"]
  obtain s' where "run listener_body
        [AddProject ''0.42'' ''Board'' ''Draw the board'' (Num 3),
         MoveProject ''0.42'' Finished,
         AddProject ''0.77'' ''Cards'' ''Render the cards'' (Num 2)] startup = Some s'"
    "map id_p (project_values s') = [''0.42'', ''0.77'']"
    unfolding startup_facts(3) by auto
  then show ?thesis by (simp add: startup_facts confined_ProjectList)
qed

text \<open>
  Unamended, the property fails when the random source returns the same string twice: both
  projects are stored, with one id.
\<close>

theorem same_draw_twice_shares_an_id:
  "map_option (\<lambda>s'. map id_p (project_values s'))
     (run listener_body
        [AddProject ''0.5'' ''Board'' ''Draw the board'' (Num 3),
         AddProject ''0.5'' ''Cards'' ''Render the cards'' (Num 2)] startup) =
     Some [''0.5'', ''0.5''] \<and>
   map_option (\<lambda>s'. distinct (map id_p (project_values s')))
     (run listener_body
        [AddProject ''0.5'' ''Board'' ''Draw the board'' (Num 3),
         AddProject ''0.5'' ''Cards'' ''Render the cards'' (Num 2)] startup) =
     Some False"
proof -
  from run_ids [OF startup_facts(1) startup_facts(4),
      of "[AddProject ''0.5'' ''Board'' ''Draw the board'' (Num 3),
           AddProject ''0.5'' ''Cards'' ''Render the cards'' (Num 2)]"]
  obtain s' where "run listener_body
        [AddProject ''0.5'' ''Board'' ''Draw the board'' (Num 3),
         AddProject ''0.5'' ''Cards'' ''Render the cards'' (Num 2)] startup = Some s'"
    "map id_p (project_values s') = [''0.5'', ''0.5'']"
    unfolding startup_facts(3) by auto
  then show ?thesis by simp
qed

subsection \<open>The list of listeners\<close>

text \<open>
  C10, as amended. \<^verbatim>\<open>addListener\<close> appends to the list of listeners, leaves the memory
  and the collection as they are and calls nobody. When the registered listeners stay out
  of the store, \<^verbatim>\<open>addProject\<close> and \<^verbatim>\<open>moveProject\<close> return and leave the list of listeners
  as it is, and the listeners they call are exactly the ones registered before, in the same
  order (\<^verbatim>\<open>moveProject\<close> may call none).
\<close>

theorem listeners_frame:
  assumes "list_all (stays_out body) (listeners s)"
  shows "listeners (addListener l s) = listeners s @ [l] \<and>
         heap (addListener l s) = heap s \<and>
         projects (addListener l s) = projects s \<and>
         project_values (addListener l s) = project_values s \<and>
         notified s (addListener l s) = [] \<and>
         (\<exists>s'. addProject body rnd t d n s = Some s' \<and> listeners s' = listeners s \<and>
            map callee (notified s s') = listeners s) \<and>
         (\<exists>s'. moveProject body pid ns s = Some s' \<and> listeners s' = listeners s \<and>
            (map callee (notified s s') = listeners s \<or> notified s s' = []))"
proof -
  have "listeners (addListener l s) = listeners s @ [l] \<and>
         heap (addListener l s) = heap s \<and>
         projects (addListener l s) = projects s \<and>
         project_values (addListener l s) = project_values s \<and>
         notified s (addListener l s) = []"
    by (simp add: addListener_def project_values_def project_refs_def notified_def)
  then show ?thesis
    using addProject_stays_out [OF assms, of rnd t d n] moveProject_stays_out [OF assms, of pid ns]
    by blast
qed

text \<open>The listeners of the two lists stay out of the store.\<close>

theorem listeners_frame_two_projects:
  "list_all (stays_out listener_body) (listeners two_projects) \<and>
   listeners (addListener (ProjectList_listener active) two_projects) =
     [ProjectList_listener active, ProjectList_listener finished, ProjectList_listener active] \<and>
   project_values (addListener (ProjectList_listener active) two_projects) = [board, cards] \<and>
   notified two_projects (addListener (ProjectList_listener active) two_projects) = [] \<and>
   map_option listeners
     (addProject listener_body ''0.13'' ''Notes'' ''Write the notes'' (Num 1) two_projects) =
     Some [ProjectList_listener active, ProjectList_listener finished] \<and>
   map_option listeners (moveProject listener_body ''0.77'' Finished two_projects) =
     Some [ProjectList_listener active, ProjectList_listener finished]"
proof -
  have so: "list_all (stays_out listener_body) (listeners two_projects)"
    by (simp add: example_stores startup_facts stays_out_ProjectList)
  from listeners_frame [OF so, of "ProjectList_listener active" "''0.13''" "''Notes''"
      "''Write the notes''" "Num 1" "''0.77''" Finished]
  show ?thesis using so by (auto simp: example_stores startup_facts)
qed

text \<open>
  Unamended, the property fails for a listener that registers a listener: \<^verbatim>\<open>addProject\<close>
  returns with a longer list of listeners than it was called with, and the listener that
  was registered during the round has been called in it.
\<close>

theorem registering_listener_grows_the_list:
  "listeners with_registrar =
     [ProjectList_listener active, Registrar (ProjectList_listener finished)] \<and>
   map_option listeners
     (addProject listener_body ''0.42'' ''Board'' ''Draw the board'' (Num 3) with_registrar) =
     Some [ProjectList_listener active, Registrar (ProjectList_listener finished),
           ProjectList_listener finished] \<and>
   map_option (\<lambda>s'. map callee (notified with_registrar s'))
     (addProject listener_body ''0.42'' ''Board'' ''Draw the board'' (Num 3) with_registrar) =
     Some [ProjectList_listener active, Registrar (ProjectList_listener finished),
           ProjectList_listener finished]"
  by (simp add: with_registrar_def addProject_def addListener_def new_ProjectState_def
      new_Project_def array_push_def invoke_def array_slice_def notified_def
      for_listeners.simps Let_def)

section \<open>Properties of the form\<close>

text \<open>
  C6. Submitting the empty form, which fails all three validations: the alert is raised, and
  \<^verbatim>\<open>addProject\<close> is called all the same. The store, empty before, holds a project with an
  empty title, an empty description and zero people.
\<close>

theorem invalid_form_is_still_added:
  "map_option alerts (submitHandler rnd start_page) = Some [''Invalid Input, please try again!''] \<and>
   map_option (\<lambda>pg. project_values (projectState pg)) (submitHandler rnd start_page) =
     Some [\<lparr>id_p = rnd, title = [], description = [], people = Num 0, status = Active\<rparr>] \<and>
   project_values (projectState start_page) = []"
proof -
  have g: "gatherUserInputVaues start_page =
     (Some ([], [], Num 0), start_page\<lparr>alerts := [''Invalid Input, please try again!'']\<rparr>)"
    by (simp add: gatherUserInputVaues_def start_page_def validate_def trim_def unary_plus_def)
  note a = addProject_facts [OF startup_facts(1) startup_facts(4), of rnd "[]" "[]" "Num 0"]
  have ps: "projectState start_page = startup" by (simp add: start_page_def)
  show ?thesis using a(1,3)
    by (simp add: submitHandler_def g clearInputs_def ps startup_facts)
qed

text \<open>
  C7. Submitting the form with title "abc", description "abcdef" and people "11": the
  validator is given the people value as a string, so it accepts it without comparing it
  with the bounds 1 and 10; no alert is raised and \<^verbatim>\<open>addProject\<close> is called with 11
  people, which is above the bound.
\<close>

theorem people_out_of_range_is_accepted:
  "validate \<lparr>value_v = Str ''11'', required = True, minLength = None, maxLength = None,
             min_v = Some (Num 1), max_v = Some (Num 10)\<rparr> \<and>
   map_option alerts (submitHandler rnd form_11) = Some [] \<and>
   map_option (\<lambda>pg. project_values (projectState pg)) (submitHandler rnd form_11) =
     Some [\<lparr>id_p = rnd, title = ''abc'', description = ''abcdef'', people = Num 11,
            status = Active\<rparr>] \<and>
   \<not> js_le (Num 11) (Num 10)"
proof -
  have p: "validate \<lparr>value_v = Str ''11'', required = True, minLength = None, maxLength = None,
             min_v = Some (Num 1), max_v = Some (Num 10)\<rparr>"
    by (simp add: validate_def trim_def is_whitespace_def)
  have g: "gatherUserInputVaues form_11 = (Some (''abc'', ''abcdef'', Num 11), form_11)"
    by (simp add: gatherUserInputVaues_def form_11_def start_page_def validate_def trim_def
        is_whitespace_def unary_plus_def unsigned_literal_def digit_value_def Let_def)
  have s: "projectState form_11 = startup" "alerts form_11 = []"
    by (simp_all add: form_11_def start_page_def)
  note a = addProject_facts [OF startup_facts(1) startup_facts(4),
      of rnd "''abc''" "''abcdef''" "Num 11"]
  show ?thesis using a(1,3) p
    by (simp add: submitHandler_def g clearInputs_def s startup_facts)
qed

end
